theory Spec2Isabelle
  imports Main "HOL-Library.Sublist"
begin

section \<open>Text helpers of the chat view's stream reader\<close>

text \<open>
  The chat view reads the answer of the completion endpoint as a stream of chunks, decodes
  each chunk with a streaming text decoder and cuts the decoded text into lines. The
  model starts after the decoder: a chunk is the text that \<open>decoder.decode(value, {stream:
  true})\<close> returns for it, a list of code units. The code units are those below 256, one
  \<^typ>\<open>char\<close> each. The streaming decoder holds the bytes of an incomplete character
  back until the next chunk, so a cut of the bytes inside a character reaches the loop as
  a cut of the text in front of that character.
\<close>

definition newline :: char where
  "newline = CHR 0x0A"

definition carriage_return :: char where
  "carriage_return = CHR 0x0D"

text \<open>\<open>buffer.indexOf('\n')\<close>: the first position, \<open>None\<close> for \<open>-1\<close>.\<close>

fun index_of :: "char \<Rightarrow> string \<Rightarrow> nat option" where
  "index_of c [] = None"
| "index_of c (x # xs) = (if x = c then Some 0 else map_option Suc (index_of c xs))"

definition starts_with :: "string \<Rightarrow> string \<Rightarrow> bool" where
  "starts_with p s = prefix p s"

definition ends_with :: "string \<Rightarrow> string \<Rightarrow> bool" where
  "ends_with p s = suffix p s"

text \<open>The white space and line terminators that \<open>String.prototype.trim\<close> removes,
  among the code units below 256.\<close>

definition is_space :: "char \<Rightarrow> bool" where
  "is_space c = (c \<in> {CHR 0x09, CHR 0x0A, CHR 0x0B, CHR 0x0C, CHR 0x0D, CHR 0x20, CHR 0xA0})"

definition trim :: "string \<Rightarrow> string" where
  "trim s = rev (dropWhile is_space (rev (dropWhile is_space s)))"

text \<open>\<open>if (line.endsWith('\r')) line = line.slice(0, -1)\<close>\<close>

definition strip_cr :: "string \<Rightarrow> string" where
  "strip_cr line = (if ends_with [carriage_return] line then butlast line else line)"

section \<open>Parsed payloads\<close>

text \<open>
  What \<open>JSON.parse\<close> returns. A number is kept as the text that \<open>String(n)\<close> gives for
  it, which is all the reader observes of a number; an object lists its own properties,
  each key once.
\<close>

datatype json =
    JNull
  | JBool bool
  | JNum string
  | JStr string
  | JArr "json list"
  | JObj "(string \<times> json) list"

text \<open>Reading a named property (\<open>choices\<close>, \<open>delta\<close>, \<open>content\<close>) of a value that is
  neither null nor undefined; \<open>None\<close> is \<open>undefined\<close>.\<close>

fun get_prop :: "string \<Rightarrow> json \<Rightarrow> json option" where
  "get_prop k (JObj kvs) = map_of kvs k"
| "get_prop k v = None"

text \<open>Reading index \<open>0\<close>.\<close>

fun get_index0 :: "json \<Rightarrow> json option" where
  "get_index0 (JArr xs) = (case xs of [] \<Rightarrow> None | x # _ \<Rightarrow> Some x)"
| "get_index0 (JObj kvs) = map_of kvs ''0''"
| "get_index0 (JStr s) = (case s of [] \<Rightarrow> None | c # _ \<Rightarrow> Some (JStr [c]))"
| "get_index0 v = None"

text \<open>Optional chaining \<open>v?.p\<close>: undefined when \<open>v\<close> is null or undefined.\<close>

definition opt_chain :: "(json \<Rightarrow> json option) \<Rightarrow> json option \<Rightarrow> json option" where
  "opt_chain f v = (case v of None \<Rightarrow> None | Some JNull \<Rightarrow> None | Some x \<Rightarrow> f x)"

text \<open>\<open>parsed.choices?.[0]?.delta?.content\<close>. The first access is not optional: it throws
  a TypeError on null, which is the outer \<open>None\<close>.\<close>

definition delta_content :: "json \<Rightarrow> json option option" where
  "delta_content parsed =
     (if parsed = JNull then None
      else Some (opt_chain (get_prop ''content'')
                  (opt_chain (get_prop ''delta'')
                    (opt_chain get_index0 (get_prop ''choices'' parsed)))))"

text \<open>\<open>if (content)\<close>\<close>

fun truthy :: "json option \<Rightarrow> bool" where
  "truthy None = False"
| "truthy (Some JNull) = False"
| "truthy (Some (JBool b)) = b"
| "truthy (Some (JNum t)) = (t \<noteq> ''0'')"
| "truthy (Some (JStr s)) = (s \<noteq> [])"
| "truthy (Some (JArr xs)) = True"
| "truthy (Some (JObj kvs)) = True"

fun join :: "string \<Rightarrow> string list \<Rightarrow> string" where
  "join sep [] = []"
| "join sep [x] = x"
| "join sep (x # y # ys) = x @ sep @ join sep (y # ys)"

text \<open>
  The text that \<open>assistantContent += content\<close> appends: the value converted to a string,
  or \<open>None\<close> when the conversion throws a TypeError. An object converts through the
  \<open>toString\<close> it inherits, unless it has a property \<open>toString\<close> of its own: a parsed value
  is never a function, so no conversion is left. An array joins its elements with commas,
  a null element giving the empty text, and throws when one of its elements does.
\<close>

fun js_to_string :: "json \<Rightarrow> string option" where
  "js_to_string JNull = Some ''null''"
| "js_to_string (JBool b) = Some (if b then ''true'' else ''false'')"
| "js_to_string (JNum t) = Some t"
| "js_to_string (JStr s) = Some s"
| "js_to_string (JArr xs) =
     map_option (join '','') (those (map (\<lambda>x. if x = JNull then Some [] else js_to_string x) xs))"
| "js_to_string (JObj kvs) =
     (if ''toString'' \<in> fst ` set kvs then None else Some ''[object Object]'')"

definition appended_text :: "json option \<Rightarrow> string option" where
  "appended_text content = (case content of None \<Rightarrow> Some ''undefined'' | Some v \<Rightarrow> js_to_string v)"

section \<open>The read loop of sendMessage\<close>

text \<open>
  The variables of the loop: \<open>buffer\<close>, \<open>assistantContent\<close>, and the trace of what the
  loop hands to the view: \<open>snapshots\<close> lists, in order, the value of \<open>assistantContent\<close>
  at each call of \<open>setMessages\<close>.
\<close>

record stream_state =
  buffer :: string
  assistantContent :: string
  snapshots :: "string list"

text \<open>
  The body of the inner loop on one extracted line, as the way it leaves the iteration:
  \<open>Proceed\<close> for the \<open>continue\<close> statements and for a content that is not truthy,
  \<open>Emit\<close> for an appended delta, \<open>Stop\<close> for the \<open>break\<close> at the end marker and
  \<open>Push_back\<close> for the \<open>catch\<close> branch, reached when \<open>JSON.parse\<close>, the read of
  \<open>choices\<close> or the conversion of the content to a string throws. \<open>JSON.parse\<close> is the platform's and is a
  parameter, \<open>parse\<close>: \<open>None\<close> when it throws.
\<close>

datatype line_effect = Proceed | Emit string | Stop | Push_back

definition process_line :: "(string \<Rightarrow> json option) \<Rightarrow> string \<Rightarrow> line_effect" where
  "process_line parse line0 =
     (let line = strip_cr line0 in
      if starts_with '':'' line \<or> trim line = [] then Proceed
      else if \<not> starts_with ''data: '' line then Proceed
      else
        let jsonStr = trim (drop 6 line) in
        if jsonStr = ''[DONE]'' then Stop
        else
          case parse jsonStr of
            None \<Rightarrow> Push_back
          | Some parsed \<Rightarrow>
              (case delta_content parsed of
                 None \<Rightarrow> Push_back
               | Some content \<Rightarrow>
                   if truthy content then
                     (case appended_text content of
                        None \<Rightarrow> Push_back
                      | Some text \<Rightarrow> Emit text)
                   else Proceed))"

lemma index_of_less: "index_of c s = Some i \<Longrightarrow> i < length s"
  by (induction s arbitrary: i) (auto split: if_splits)

text \<open>The inner loop, \<open>while ((newlineIndex = buffer.indexOf('\n')) !== -1)\<close>: every pass
  removes the first line from the buffer, so the loop ends.\<close>

function drain :: "(string \<Rightarrow> json option) \<Rightarrow> stream_state \<Rightarrow> stream_state" where
  "drain parse st =
     (case index_of newline (buffer st) of
        None \<Rightarrow> st
      | Some newlineIndex \<Rightarrow>
          (let line = take newlineIndex (buffer st);
               st1 = st\<lparr>buffer := drop (newlineIndex + 1) (buffer st)\<rparr>
           in case process_line parse line of
                Proceed \<Rightarrow> drain parse st1
              | Emit content \<Rightarrow>
                  drain parse
                    (st1\<lparr>assistantContent := assistantContent st1 @ content,
                         snapshots := snapshots st1 @ [assistantContent st1 @ content]\<rparr>)
              | Stop \<Rightarrow> st1
              | Push_back \<Rightarrow> st1\<lparr>buffer := strip_cr line @ [newline] @ buffer st1\<rparr>))"
  by pat_completeness auto
termination
  by (relation "measure (\<lambda>(parse, st). length (buffer st))")
     (auto dest: index_of_less)

text \<open>One pass of the outer loop on a chunk that was read: the chunk is appended to the
  buffer and the inner loop runs.\<close>

definition feed :: "(string \<Rightarrow> json option) \<Rightarrow> stream_state \<Rightarrow> string \<Rightarrow> stream_state" where
  "feed parse st chunk = drain parse (st\<lparr>buffer := buffer st @ chunk\<rparr>)"

text \<open>The outer loop over the chunks that the reader returns until it reports \<open>done\<close>.\<close>

definition read_loop :: "(string \<Rightarrow> json option) \<Rightarrow> string list \<Rightarrow> stream_state \<Rightarrow> stream_state" where
  "read_loop parse chunks st = foldl (feed parse) st chunks"

definition initial_stream :: stream_state where
  "initial_stream = \<lparr>buffer = [], assistantContent = [], snapshots = []\<rparr>"

section \<open>The backend schema\<close>

text \<open>
  The tables of the migration, with the columns that the constraints, the policies and the
  modelled handlers read. Generated keys and time stamps that nothing reads are left out;
  a generated key that is read (a conversation's) is supplied by the caller of the model.
\<close>

type_synonym uuid = nat

datatype app_role = Admin | Legal_analyst | User

datatype legal_domain =
    Criminal | Civil | Corporate | Constitutional | Labor | Tax | Property | Family
  | Environmental | Intellectual_property | General

record legal_document =
  doc_title :: string
  doc_description :: "string option"
  doc_content :: "string option"
  doc_domain :: legal_domain
  doc_jurisdiction :: "string option"
  doc_year :: "int option"
  doc_tags :: "string list option"
  uploaded_by :: "uuid option"
  validated :: "bool option"
  validated_by :: "uuid option"

record conversation =
  conv_id :: uuid
  conv_user_id :: uuid
  conv_title :: string

record message =
  msg_conversation_id :: uuid
  msg_role :: string
  msg_content :: string

record database =
  auth_users :: "uuid list"
  profiles :: "(uuid \<times> string option) list"
  user_roles :: "(uuid \<times> app_role) list"
  legal_documents :: "legal_document list"
  conversations :: "conversation list"
  messages :: "message list"

datatype pg_error =
    Rls_violation
  | Unique_violation
  | Foreign_key_violation
  | Check_violation
  | Numeric_out_of_range
  | Transport_failure

subsection \<open>SQL's three-valued conditions\<close>

text \<open>\<open>None\<close> is NULL. A policy admits a row when its condition is true, not when it is
  NULL.\<close>

definition sql_eq :: "'a option \<Rightarrow> 'a option \<Rightarrow> bool option" where
  "sql_eq a b = (case a of None \<Rightarrow> None | Some x \<Rightarrow> (case b of None \<Rightarrow> None | Some y \<Rightarrow> Some (x = y)))"

definition sql_or :: "bool option \<Rightarrow> bool option \<Rightarrow> bool option" where
  "sql_or a b =
     (if a = Some True \<or> b = Some True then Some True
      else if a = None \<or> b = None then None
      else Some False)"

definition sql_and :: "bool option \<Rightarrow> bool option \<Rightarrow> bool option" where
  "sql_and a b =
     (if a = Some False \<or> b = Some False then Some False
      else if a = None \<or> b = None then None
      else Some True)"

definition passes :: "bool option \<Rightarrow> bool" where
  "passes v = (v = Some True)"

subsection \<open>Role functions\<close>

text \<open>\<open>has_role(_user_id, _role)\<close>; the caller's \<open>auth.uid()\<close> is NULL without a session.\<close>

definition has_role :: "database \<Rightarrow> uuid option \<Rightarrow> app_role \<Rightarrow> bool" where
  "has_role db user_id r =
     (case user_id of None \<Rightarrow> False | Some u \<Rightarrow> (u, r) \<in> set (user_roles db))"

text \<open>\<open>get_user_role(_user_id)\<close>: the first row in the order admin, legal_analyst, user.\<close>

definition get_user_role :: "database \<Rightarrow> uuid \<Rightarrow> app_role option" where
  "get_user_role db u =
     (if (u, Admin) \<in> set (user_roles db) then Some Admin
      else if (u, Legal_analyst) \<in> set (user_roles db) then Some Legal_analyst
      else if (u, User) \<in> set (user_roles db) then Some User
      else None)"

subsection \<open>Policies\<close>

text \<open>A policy declared \<open>TO authenticated\<close> applies to callers with a session only.\<close>

definition authenticated :: "uuid option \<Rightarrow> bool" where
  "authenticated caller = (caller \<noteq> None)"

definition user_roles_view_own :: "uuid option \<Rightarrow> uuid \<times> app_role \<Rightarrow> bool option" where
  "user_roles_view_own caller row = sql_eq caller (Some (fst row))"

definition user_roles_admin_all :: "database \<Rightarrow> uuid option \<Rightarrow> bool option" where
  "user_roles_admin_all db caller = Some (has_role db caller Admin)"

definition legal_documents_select :: "database \<Rightarrow> uuid option \<Rightarrow> legal_document \<Rightarrow> bool" where
  "legal_documents_select db caller d =
     (authenticated caller \<and>
      passes (sql_or (sql_or (sql_or
        (sql_eq (validated d) (Some True))
        (sql_eq (uploaded_by d) caller))
        (Some (has_role db caller Admin)))
        (Some (has_role db caller Legal_analyst))))"

definition legal_documents_insert :: "database \<Rightarrow> uuid option \<Rightarrow> bool" where
  "legal_documents_insert db caller =
     (authenticated caller \<and>
      passes (sql_or (Some (has_role db caller Admin)) (Some (has_role db caller Legal_analyst))))"

definition conversations_own :: "uuid option \<Rightarrow> conversation \<Rightarrow> bool" where
  "conversations_own caller c = passes (sql_eq caller (Some (conv_user_id c)))"

definition messages_in_own_conversation :: "database \<Rightarrow> uuid option \<Rightarrow> uuid \<Rightarrow> bool" where
  "messages_in_own_conversation db caller conversation_id =
     (\<exists>c \<in> set (conversations db).
        conv_id c = conversation_id \<and> passes (sql_eq (Some (conv_user_id c)) caller))"

subsection \<open>Statements\<close>

text \<open>\<open>handle_new_user\<close>, the trigger function run after a row is inserted in
  \<open>auth.users\<close>; as a security definer it is not subject to the policies.\<close>

definition handle_new_user :: "uuid \<Rightarrow> string option \<Rightarrow> database \<Rightarrow> pg_error + database" where
  "handle_new_user new_id full_name db =
     (if new_id \<in> fst ` set (profiles db) then Inl Unique_violation
      else
        let db1 = db\<lparr>profiles := profiles db @ [(new_id, full_name)]\<rparr> in
        if (new_id, User) \<in> set (user_roles db1) then Inl Unique_violation
        else Inr (db1\<lparr>user_roles := user_roles db1 @ [(new_id, User)]\<rparr>))"

text \<open>Account creation: the row in \<open>auth.users\<close> and the trigger \<open>on_auth_user_created\<close>,
  in one transaction.\<close>

definition insert_auth_user :: "uuid \<Rightarrow> string option \<Rightarrow> database \<Rightarrow> pg_error + database" where
  "insert_auth_user new_id full_name db =
     (if new_id \<in> set (auth_users db) then Inl Unique_violation
      else handle_new_user new_id full_name (db\<lparr>auth_users := auth_users db @ [new_id]\<rparr>))"

text \<open>Deleting a user: \<open>ON DELETE CASCADE\<close> on profiles, user_roles and conversations (and
  from conversations on messages), \<open>ON DELETE SET NULL\<close> on the two references of a
  document.\<close>

definition clear_reference :: "uuid \<Rightarrow> uuid option \<Rightarrow> uuid option" where
  "clear_reference u r = (if r = Some u then None else r)"

definition delete_auth_user :: "uuid \<Rightarrow> database \<Rightarrow> pg_error + database" where
  "delete_auth_user u db =
     (let gone = map conv_id (filter (\<lambda>c. conv_user_id c = u) (conversations db)) in
      Inr (db\<lparr>auth_users := filter (\<lambda>x. x \<noteq> u) (auth_users db),
               profiles := filter (\<lambda>p. fst p \<noteq> u) (profiles db),
               user_roles := filter (\<lambda>r. fst r \<noteq> u) (user_roles db),
               legal_documents :=
                 map (\<lambda>d. d\<lparr>uploaded_by := clear_reference u (uploaded_by d),
                             validated_by := clear_reference u (validated_by d)\<rparr>)
                   (legal_documents db),
               conversations := filter (\<lambda>c. conv_user_id c \<noteq> u) (conversations db),
               messages := filter (\<lambda>m. msg_conversation_id m \<notin> set gone) (messages db)\<rparr>))"

text \<open>\<open>from('user_roles').delete().eq('user_id', userId)\<close>: the rows of the user that the
  caller may see and delete; rows hidden by the policies are skipped without an error.\<close>

definition delete_user_roles :: "uuid option \<Rightarrow> uuid \<Rightarrow> database \<Rightarrow> pg_error + database" where
  "delete_user_roles caller userId db =
     Inr (db\<lparr>user_roles :=
       filter (\<lambda>row. \<not> (fst row = userId \<and>
                 passes (sql_and (sql_or (user_roles_view_own caller row) (user_roles_admin_all db caller))
                                 (user_roles_admin_all db caller))))
         (user_roles db)\<rparr>)"

text \<open>\<open>from('user_roles').insert({ user_id, role })\<close>\<close>

definition insert_user_role :: "uuid option \<Rightarrow> uuid \<Rightarrow> app_role \<Rightarrow> database \<Rightarrow> pg_error + database" where
  "insert_user_role caller userId newRole db =
     (if \<not> passes (user_roles_admin_all db caller) then Inl Rls_violation
      else if (userId, newRole) \<in> set (user_roles db) then Inl Unique_violation
      else if userId \<notin> set (auth_users db) then Inl Foreign_key_violation
      else Inr (db\<lparr>user_roles := user_roles db @ [(userId, newRole)]\<rparr>))"

text \<open>\<open>from('legal_documents').insert({...})\<close>. The \<open>year\<close> column is a 32-bit integer: a
  value outside its range is rejected when the row is read, before the policy is tested
  (as is a number that is sent in exponent form, with another error code).\<close>

definition insert_legal_document :: "uuid option \<Rightarrow> legal_document \<Rightarrow> database \<Rightarrow> pg_error + database" where
  "insert_legal_document caller d db =
     (if (case doc_year d of None \<Rightarrow> False | Some y \<Rightarrow> y < - (2 ^ 31) \<or> 2 ^ 31 \<le> y)
        then Inl Numeric_out_of_range
      else if \<not> legal_documents_insert db caller then Inl Rls_violation
      else if (case uploaded_by d of None \<Rightarrow> False | Some u \<Rightarrow> u \<notin> set (auth_users db)) \<or>
              (case validated_by d of None \<Rightarrow> False | Some u \<Rightarrow> u \<notin> set (auth_users db))
        then Inl Foreign_key_violation
      else Inr (db\<lparr>legal_documents := legal_documents db @ [d]\<rparr>))"

text \<open>\<open>from('legal_documents').select('*')\<close>: the rows that the select policy admits.\<close>

definition select_legal_documents :: "uuid option \<Rightarrow> database \<Rightarrow> legal_document list" where
  "select_legal_documents caller db = filter (legal_documents_select db caller) (legal_documents db)"

text \<open>\<open>from('conversations').insert({ user_id, title }).select().single()\<close>\<close>

definition insert_conversation ::
  "uuid option \<Rightarrow> uuid \<Rightarrow> uuid \<Rightarrow> string \<Rightarrow> database \<Rightarrow> pg_error + conversation \<times> database" where
  "insert_conversation caller new_id user_id title db =
     (let c = \<lparr>conv_id = new_id, conv_user_id = user_id, conv_title = title\<rparr> in
      if \<not> conversations_own caller c then Inl Rls_violation
      else if new_id \<in> conv_id ` set (conversations db) then Inl Unique_violation
      else if user_id \<notin> set (auth_users db) then Inl Foreign_key_violation
      else Inr (c, db\<lparr>conversations := conversations db @ [c]\<rparr>))"

text \<open>\<open>from('conversations').update({ title }).eq('id', id)\<close>\<close>

definition update_conversation_title :: "uuid option \<Rightarrow> uuid \<Rightarrow> string \<Rightarrow> database \<Rightarrow> pg_error + database" where
  "update_conversation_title caller cid title db =
     Inr (db\<lparr>conversations :=
       map (\<lambda>c. if conv_id c = cid \<and> conversations_own caller c then c\<lparr>conv_title := title\<rparr> else c)
         (conversations db)\<rparr>)"

text \<open>\<open>from('conversations').delete().eq('id', id)\<close>, with the cascade on messages.\<close>

definition delete_conversation :: "uuid option \<Rightarrow> uuid \<Rightarrow> database \<Rightarrow> pg_error + database" where
  "delete_conversation caller cid db =
     (let gone = map conv_id (filter (\<lambda>c. conv_id c = cid \<and> conversations_own caller c) (conversations db)) in
      Inr (db\<lparr>conversations :=
                 filter (\<lambda>c. \<not> (conv_id c = cid \<and> conversations_own caller c)) (conversations db),
               messages := filter (\<lambda>m. msg_conversation_id m \<notin> set gone) (messages db)\<rparr>))"

text \<open>\<open>from('messages').insert({ conversation_id, role, content })\<close>\<close>

definition insert_message :: "uuid option \<Rightarrow> message \<Rightarrow> database \<Rightarrow> pg_error + database" where
  "insert_message caller m db =
     (if \<not> messages_in_own_conversation db caller (msg_conversation_id m) then Inl Rls_violation
      else if msg_role m \<notin> {''user'', ''assistant'', ''system''} then Inl Check_violation
      else if msg_conversation_id m \<notin> conv_id ` set (conversations db) then Inl Foreign_key_violation
      else Inr (db\<lparr>messages := messages db @ [m]\<rparr>))"

section \<open>The views\<close>

text \<open>
  What \<open>useAuth\<close> gives a view: the signed-in user's id, if any, and the resolved role, if
  any. The requests of a view are made with that user's session.
\<close>

record session =
  session_user :: "uuid option"
  session_role :: "app_role option"

datatype toast_text = Text string | Error_message pg_error

record toast =
  toast_title :: string
  toast_description :: "toast_text option"
  destructive :: bool

text \<open>One request to the backend: it either reaches the backend, which runs the statement,
  or fails on the way with an error and without effect.\<close>

definition request :: "bool \<Rightarrow> (database \<Rightarrow> pg_error + 'a) \<Rightarrow> database \<Rightarrow> pg_error + 'a" where
  "request delivered statement db = (if delivered then statement db else Inl Transport_failure)"

text \<open>A request whose result the view does not look at.\<close>

definition ignore_result :: "pg_error + database \<Rightarrow> database \<Rightarrow> database" where
  "ignore_result result db = (case result of Inl error \<Rightarrow> db | Inr db' \<Rightarrow> db')"

subsection \<open>Users: handleRoleChange\<close>

text \<open>\<open>delivered i\<close> tells whether the i-th request of the handler reaches the backend.\<close>

fun role_name :: "app_role \<Rightarrow> string" where
  "role_name Admin = ''admin''"
| "role_name Legal_analyst = ''legal_analyst''"
| "role_name User = ''user''"

definition handleRoleChange ::
  "(nat \<Rightarrow> bool) \<Rightarrow> session \<Rightarrow> uuid \<Rightarrow> app_role \<Rightarrow> database \<Rightarrow> toast option \<times> database" where
  "handleRoleChange delivered sess userId newRole db =
     (if session_role sess \<noteq> Some Admin then (None, db)
      else if Some userId = session_user sess then
        (Some \<lparr>toast_title = ''Cannot change own role'',
               toast_description = Some (Text ''You cannot change your own role.''),
               destructive = True\<rparr>, db)
      else
        case request (delivered 0) (delete_user_roles (session_user sess) userId) db of
          Inl deleteError \<Rightarrow>
            (Some \<lparr>toast_title = ''Error updating role'',
                   toast_description = Some (Error_message deleteError),
                   destructive = True\<rparr>, db)
        | Inr db1 \<Rightarrow>
            (case request (delivered 1) (insert_user_role (session_user sess) userId newRole) db1 of
               Inl insertError \<Rightarrow>
                 (Some \<lparr>toast_title = ''Error updating role'',
                        toast_description = Some (Error_message insertError),
                        destructive = True\<rparr>, db1)
             | Inr db2 \<Rightarrow>
                 (Some \<lparr>toast_title = ''Role updated'',
                        toast_description =
                          Some (Text (''User role has been changed to '' @ role_name newRole @ ''.'')),
                        destructive = False\<rparr>, db2)))"

subsection \<open>Documents: handleUpload\<close>

record upload_form =
  uploadTitle :: string
  uploadDescription :: string
  uploadDomain :: legal_domain
  uploadJurisdiction :: string
  uploadYear :: string
  uploadTags :: string
  uploadContent :: string

text \<open>\<open>s.split(',')\<close>\<close>

fun split_on :: "char \<Rightarrow> string \<Rightarrow> string list" where
  "split_on c [] = [[]]"
| "split_on c (x # xs) =
     (if x = c then [] # split_on c xs
      else (case split_on c xs of [] \<Rightarrow> [[x]] | w # ws \<Rightarrow> (x # w) # ws))"

text \<open>\<open>s || null\<close>\<close>

definition or_null :: "string \<Rightarrow> string option" where
  "or_null s = (if s = [] then None else Some s)"

text \<open>\<open>parseInt\<close> is the platform's: \<open>None\<close> is NaN, which is sent as null.\<close>

definition handleUpload ::
  "(string \<Rightarrow> int option) \<Rightarrow> (nat \<Rightarrow> bool) \<Rightarrow> session \<Rightarrow> upload_form \<Rightarrow> database
     \<Rightarrow> toast option \<times> database" where
  "handleUpload parseInt delivered sess form db =
     (case session_user sess of
        None \<Rightarrow>
          (Some \<lparr>toast_title = ''Missing required fields'',
                 toast_description = Some (Text ''Please fill in title and content.''),
                 destructive = True\<rparr>, db)
      | Some user_id \<Rightarrow>
          if uploadTitle form = [] \<or> uploadContent form = [] then
            (Some \<lparr>toast_title = ''Missing required fields'',
                   toast_description = Some (Text ''Please fill in title and content.''),
                   destructive = True\<rparr>, db)
          else
            case request (delivered 0)
                   (insert_legal_document (session_user sess)
                      \<lparr>doc_title = uploadTitle form,
                       doc_description = or_null (uploadDescription form),
                       doc_content = Some (uploadContent form),
                       doc_domain = uploadDomain form,
                       doc_jurisdiction = or_null (uploadJurisdiction form),
                       doc_year = (if uploadYear form = [] then None else parseInt (uploadYear form)),
                       doc_tags = (if uploadTags form = [] then None
                                   else Some (map trim (split_on (CHR '','') (uploadTags form)))),
                       uploaded_by = Some user_id,
                       validated = Some (session_role sess = Some Admin),
                       validated_by = None\<rparr>) db of
              Inl error \<Rightarrow>
                (Some \<lparr>toast_title = ''Upload failed'',
                       toast_description = Some (Error_message error),
                       destructive = True\<rparr>, db)
            | Inr db' \<Rightarrow>
                (Some \<lparr>toast_title = ''Document uploaded'',
                       toast_description =
                         Some (Text (if session_role sess = Some Admin
                                     then ''Document has been added and validated.''
                                     else ''Document has been added and is pending validation.'')),
                       destructive = False\<rparr>, db'))"

subsection \<open>Documents: fetchDocuments\<close>

text \<open>The rows that the query returns. The view asks for them by \<open>created_at\<close>, newest
  first; the time stamps are not part of the tables here, so the list is in the order of
  the table and only says which rows are returned.\<close>

definition fetchDocuments :: "session \<Rightarrow> database \<Rightarrow> legal_document list" where
  "fetchDocuments sess db = select_legal_documents (session_user sess) db"

subsection \<open>Chat: deleteConversation and sendMessage\<close>

definition deleteConversation ::
  "(nat \<Rightarrow> bool) \<Rightarrow> session \<Rightarrow> uuid \<Rightarrow> database \<Rightarrow> toast option \<times> database" where
  "deleteConversation delivered sess cid db =
     (case request (delivered 0) (delete_conversation (session_user sess) cid) db of
        Inl error \<Rightarrow>
          (Some \<lparr>toast_title = ''Error'',
                 toast_description = Some (Text ''Failed to delete conversation''),
                 destructive = True\<rparr>, db)
      | Inr db' \<Rightarrow> (None, db'))"

text \<open>The answer to the stream-open request: a rejected \<open>fetch\<close>, with the message of its
  error, or a response with its status and, if it has a body, the decoded chunks read
  from it until it closes.\<close>

datatype fetch_result = Rejected string | Response nat "string list option"

text \<open>\<open>response.ok\<close>\<close>

definition response_ok :: "nat \<Rightarrow> bool" where
  "response_ok status = (200 \<le> status \<and> status \<le> 299)"

definition rate_limit_message :: string where
  "rate_limit_message = ''Rate limit exceeded. Please try again later.''"

definition payment_message :: string where
  "payment_message = ''Payment required. Please add credits to continue.''"

definition generic_message :: string where
  "generic_message = ''Failed to get response''"

text \<open>The \<open>try\<close> block up to the end of the read loop: \<open>Inl\<close> is the message of the error
  thrown, \<open>Inr\<close> the state of the reader when the stream has closed.\<close>

definition stream_response :: "(string \<Rightarrow> json option) \<Rightarrow> fetch_result \<Rightarrow> string + stream_state" where
  "stream_response parse r =
     (case r of
        Rejected error_message \<Rightarrow> Inl error_message
      | Response status body \<Rightarrow>
          if \<not> response_ok status then
            (if status = 429 then Inl rate_limit_message
             else if status = 402 then Inl payment_message
             else Inl generic_message)
          else
            (case body of
               None \<Rightarrow> Inr initial_stream
             | Some chunks \<Rightarrow> Inr (read_loop parse chunks initial_stream)))"

text \<open>
  The state of the chat view that sendMessage reads, and sendMessage itself as far as the
  stored data and the toast go: \<open>new_id\<close> is the key that the backend generates if a
  conversation is created, \<open>response\<close> the answer to the stream-open request. The requests
  are numbered 0 (create the conversation), 1 (store the user's message), 2 (set the
  title) and 3 (store the assistant's message).
\<close>

record chat_view =
  activeConversationId :: "uuid option"
  view_messages :: "(string \<times> string) list"

definition sendMessage ::
  "(string \<Rightarrow> json option) \<Rightarrow> (nat \<Rightarrow> bool) \<Rightarrow> uuid \<Rightarrow> fetch_result \<Rightarrow> session \<Rightarrow> chat_view \<Rightarrow> string
     \<Rightarrow> database \<Rightarrow> toast option \<times> database" where
  "sendMessage parse delivered new_id response sess view content db =
     (case session_user sess of
        None \<Rightarrow> (None, db)
      | Some user_id \<Rightarrow>
          (case (case activeConversationId view of
                   Some conversationId \<Rightarrow> Inr (conversationId, db)
                 | None \<Rightarrow>
                     (case request (delivered 0)
                             (insert_conversation (session_user sess) new_id user_id
                                (take 50 content @ ''...'')) db of
                        Inl error \<Rightarrow> Inl error
                      | Inr (data, db') \<Rightarrow> Inr (conv_id data, db'))) of
             Inl error \<Rightarrow>
               (Some \<lparr>toast_title = ''Error'',
                      toast_description = Some (Text ''Failed to create conversation''),
                      destructive = True\<rparr>, db)
           | Inr (conversationId, db1) \<Rightarrow>
               (let db2 = ignore_result (request (delivered 1)
                            (insert_message (session_user sess)
                               \<lparr>msg_conversation_id = conversationId, msg_role = ''user'',
                                msg_content = content\<rparr>) db1) db1;
                    db3 = (if view_messages view = [] then
                             ignore_result (request (delivered 2)
                               (update_conversation_title (session_user sess) conversationId
                                  (take 50 content @ (if 50 < length content then ''...'' else []))) db2) db2
                           else db2)
                in case stream_response parse response of
                     Inl error_message \<Rightarrow>
                       (Some \<lparr>toast_title = ''Error'',
                              toast_description = Some (Text error_message),
                              destructive = True\<rparr>, db3)
                   | Inr st \<Rightarrow>
                       (None,
                        ignore_result (request (delivered 3)
                          (insert_message (session_user sess)
                             \<lparr>msg_conversation_id = conversationId, msg_role = ''assistant'',
                              msg_content = assistantContent st\<rparr>) db3) db3))))"

section \<open>Notions used to state the properties\<close>

text \<open>A comment line or a blank line, as the reader receives it (before the carriage
  return is stripped).\<close>

definition comment_or_blank :: "string \<Rightarrow> bool" where
  "comment_or_blank line = (starts_with '':'' line \<or> trim line = [])"

text \<open>A well-formed data line carrying the textual delta \<open>d\<close>: it has the prefix, its
  payload is not the end marker, the payload parses and the value at
  \<open>choices[0].delta.content\<close> is the string \<open>d\<close>.\<close>

definition data_line :: "(string \<Rightarrow> json option) \<Rightarrow> string \<Rightarrow> string \<Rightarrow> bool" where
  "data_line parse line d =
     (newline \<notin> set line \<and> starts_with ''data: '' (strip_cr line) \<and>
      trim (drop 6 (strip_cr line)) \<noteq> ''[DONE]'' \<and>
      (case parse (trim (drop 6 (strip_cr line))) of
         None \<Rightarrow> False
       | Some parsed \<Rightarrow> delta_content parsed = Some (Some (JStr d))))"

text \<open>A line of a well-formed stream before its end marker, with the delta it carries: a
  well-formed data line, or a comment line or a blank line, which carries none.\<close>

definition stream_line :: "(string \<Rightarrow> json option) \<Rightarrow> string \<Rightarrow> string \<Rightarrow> bool" where
  "stream_line parse line d =
     (data_line parse line d \<or> (comment_or_blank line \<and> newline \<notin> set line \<and> d = []))"

text \<open>A line whose whole payload is the end marker.\<close>

definition sentinel_line :: "string \<Rightarrow> bool" where
  "sentinel_line line =
     (newline \<notin> set line \<and> starts_with ''data: '' (strip_cr line) \<and>
      trim (drop 6 (strip_cr line)) = ''[DONE]'')"

text \<open>The snapshots expected from a list of deltas on top of the text \<open>acc\<close>: one for
  each delta that is not empty.\<close>

fun expected_snapshots :: "string \<Rightarrow> string list \<Rightarrow> string list" where
  "expected_snapshots acc [] = []"
| "expected_snapshots acc (d # ds) =
     (if d = [] then expected_snapshots acc ds
      else (acc @ d) # expected_snapshots (acc @ d) ds)"

definition unlines :: "string list \<Rightarrow> string" where
  "unlines ls = concat (map (\<lambda>l. l @ [newline]) ls)"

text \<open>Whether the inner loop, started on a buffer, leaves through one of its two \<open>break\<close>s.\<close>

function breaks :: "(string \<Rightarrow> json option) \<Rightarrow> string \<Rightarrow> bool" where
  "breaks parse b =
     (case index_of newline b of
        None \<Rightarrow> False
      | Some newlineIndex \<Rightarrow>
          (case process_line parse (take newlineIndex b) of
             Proceed \<Rightarrow> breaks parse (drop (newlineIndex + 1) b)
           | Emit content \<Rightarrow> breaks parse (drop (newlineIndex + 1) b)
           | Stop \<Rightarrow> True
           | Push_back \<Rightarrow> True))"
  by pat_completeness auto
termination
  by (relation "measure (\<lambda>(parse, b). length b)") (auto dest: index_of_less)

section \<open>Example inputs\<close>

text \<open>A stand-in for \<open>JSON.parse\<close> on the payloads of the examples: it knows the texts
  listed here, each with the value \<open>JSON.parse\<close> gives for it, and rejects every other text.\<close>

definition content_payload :: "string \<Rightarrow> json" where
  "content_payload d =
     JObj [(''choices'', JArr [JObj [(''delta'', JObj [(''content'', JStr d)])]])]"

definition sample_parse :: "string \<Rightarrow> json option" where
  "sample_parse s =
     (if s = ''{\"choices\":[{\"delta\":{\"content\":\"Hello\"}}]}'' then Some (content_payload ''Hello'')
      else if s = ''{\"choices\":[{\"delta\":{\"content\":\" world\"}}]}'' then Some (content_payload '' world'')
      else if s = ''{\"choices\":[{\"delta\":{\"content\":\"\"}}]}'' then Some (content_payload [])
      else None)"

definition hello_line :: string where
  "hello_line = ''data: {\"choices\":[{\"delta\":{\"content\":\"Hello\"}}]}''"

definition world_line :: string where
  "world_line = ''data: {\"choices\":[{\"delta\":{\"content\":\" world\"}}]}''"

definition empty_delta_line :: string where
  "empty_delta_line = ''data: {\"choices\":[{\"delta\":{\"content\":\"\"}}]}''"

definition done_line :: string where
  "done_line = ''data: [DONE]''"

section \<open>Statements as data, and the declared constraints\<close>

text \<open>The statements that reach the tables, so that a property can be stated for every one
  of them.\<close>

datatype statement =
    Insert_auth_user uuid "string option"
  | Delete_auth_user uuid
  | Delete_user_roles "uuid option" uuid
  | Insert_user_role "uuid option" uuid app_role
  | Insert_legal_document "uuid option" legal_document
  | Insert_conversation "uuid option" uuid uuid string
  | Update_conversation_title "uuid option" uuid string
  | Delete_conversation "uuid option" uuid
  | Insert_message "uuid option" message

fun execute :: "statement \<Rightarrow> database \<Rightarrow> pg_error + database" where
  "execute (Insert_auth_user new_id full_name) db = insert_auth_user new_id full_name db"
| "execute (Delete_auth_user u) db = delete_auth_user u db"
| "execute (Delete_user_roles caller userId) db = delete_user_roles caller userId db"
| "execute (Insert_user_role caller userId newRole) db = insert_user_role caller userId newRole db"
| "execute (Insert_legal_document caller d) db = insert_legal_document caller d db"
| "execute (Insert_conversation caller new_id user_id title) db =
     (case insert_conversation caller new_id user_id title db of
        Inl error \<Rightarrow> Inl error
      | Inr (data, db') \<Rightarrow> Inr db')"
| "execute (Update_conversation_title caller cid title) db = update_conversation_title caller cid title db"
| "execute (Delete_conversation caller cid) db = delete_conversation caller cid db"
| "execute (Insert_message caller m) db = insert_message caller m db"

text \<open>\<open>messages.conversation_id REFERENCES conversations(id)\<close>\<close>

definition messages_reference_conversations :: "database \<Rightarrow> bool" where
  "messages_reference_conversations db =
     (\<forall>m \<in> set (messages db). msg_conversation_id m \<in> conv_id ` set (conversations db))"

text \<open>\<open>user_roles.user_id REFERENCES auth.users(id)\<close>\<close>

definition roles_reference_users :: "database \<Rightarrow> bool" where
  "roles_reference_users db = (\<forall>r \<in> set (user_roles db). fst r \<in> set (auth_users db))"

text \<open>The roles that the table holds for a user.\<close>

definition roles_of :: "database \<Rightarrow> uuid \<Rightarrow> app_role list" where
  "roles_of db u = map snd (filter (\<lambda>r. fst r = u) (user_roles db))"

text \<open>\<open>conversations.id PRIMARY KEY\<close>\<close>

definition conversation_ids_unique :: "database \<Rightarrow> bool" where
  "conversation_ids_unique db = distinct (map conv_id (conversations db))"

section \<open>Example data\<close>

text \<open>An administrator (1), an analyst (2) and two plain users (3 and 4); user 3 uploaded
  the unvalidated document and owns the conversation.\<close>

definition lease_act :: legal_document where
  "lease_act =
     \<lparr>doc_title = ''Lease Act'', doc_description = None, doc_content = None, doc_domain = Property,
      doc_jurisdiction = None, doc_year = None, doc_tags = None, uploaded_by = Some 3,
      validated = Some False, validated_by = None\<rparr>"

definition sample_db :: database where
  "sample_db =
     \<lparr>auth_users = [1, 2, 3, 4],
      profiles = [(1, Some ''Ada''), (2, Some ''Ben''), (3, None), (4, None)],
      user_roles = [(1, Admin), (2, Legal_analyst), (3, User), (4, User)],
      legal_documents = [lease_act],
      conversations = [\<lparr>conv_id = 10, conv_user_id = 3, conv_title = ''Deposit''\<rparr>],
      messages = [\<lparr>msg_conversation_id = 10, msg_role = ''user'', msg_content = ''Hi''\<rparr>]\<rparr>"

definition session_of :: "uuid \<Rightarrow> app_role \<Rightarrow> session" where
  "session_of u r = \<lparr>session_user = Some u, session_role = Some r\<rparr>"

definition sample_parseInt :: "string \<Rightarrow> int option" where
  "sample_parseInt s = (if s = ''1995'' then Some 1995 else None)"

definition sample_form :: upload_form where
  "sample_form =
     \<lparr>uploadTitle = ''Tenancy Act'', uploadDescription = [], uploadDomain = Property,
      uploadJurisdiction = ''Kenya'', uploadYear = ''1995'', uploadTags = ''rent, lease'',
      uploadContent = ''An Act about tenancies.''\<rparr>"


section \<open>Lemmas on the read loop\<close>

declare drain.simps [simp del]

declare breaks.simps [simp del]

lemma index_of_None: "index_of c s = None \<longleftrightarrow> c \<notin> set s"
  by (induction s) auto

lemma index_of_append: "c \<notin> set l \<Longrightarrow> index_of c (l @ c # rest) = Some (length l)"
  by (induction l) auto

lemma index_of_Some_split:
  "index_of c s = Some i \<Longrightarrow> s = take i s @ c # drop (Suc i) s \<and> c \<notin> set (take i s)"
proof (induction s arbitrary: i)
  case Nil
  then show ?case by simp
next
  case (Cons x xs)
  show ?case
  proof (cases "x = c")
    case True
    with Cons.prems show ?thesis by simp
  next
    case False
    with Cons.prems obtain j where j: "index_of c xs = Some j" "i = Suc j"
      by auto
    from Cons.IH[OF j(1)] False j(2) show ?thesis by auto
  qed
qed

lemma drain_no_newline: "newline \<notin> set (buffer st) \<Longrightarrow> drain parse st = st"
  by (subst drain.simps) (simp add: index_of_None[THEN iffD2])

lemma drain_line:
  assumes "newline \<notin> set l" and "buffer st = l @ newline # rest"
  shows "drain parse st =
     (case process_line parse l of
        Proceed \<Rightarrow> drain parse (st\<lparr>buffer := rest\<rparr>)
      | Emit content \<Rightarrow>
          drain parse (st\<lparr>buffer := rest, assistantContent := assistantContent st @ content,
                         snapshots := snapshots st @ [assistantContent st @ content]\<rparr>)
      | Stop \<Rightarrow> st\<lparr>buffer := rest\<rparr>
      | Push_back \<Rightarrow> st\<lparr>buffer := strip_cr l @ newline # rest\<rparr>)"
  using assms by (subst drain.simps) (simp add: index_of_append Let_def split: line_effect.splits)

lemma breaks_no_newline: "newline \<notin> set b \<Longrightarrow> \<not> breaks parse b"
  by (subst breaks.simps) (simp add: index_of_None[THEN iffD2])

lemma breaks_line:
  assumes "newline \<notin> set l"
  shows "breaks parse (l @ newline # rest) =
     (case process_line parse l of
        Proceed \<Rightarrow> breaks parse rest
      | Emit content \<Rightarrow> breaks parse rest
      | Stop \<Rightarrow> True
      | Push_back \<Rightarrow> True)"
  using assms by (subst breaks.simps) (simp add: index_of_append split: line_effect.splits)

text \<open>Chunk fusion: when the loop on the buffer does not break, a chunk appended afterwards
  is handled as if it had been there from the start.\<close>

lemma drain_fusion:
  "\<not> breaks parse (buffer st) \<Longrightarrow>
   drain parse ((drain parse st)\<lparr>buffer := buffer (drain parse st) @ c\<rparr>) =
   drain parse (st\<lparr>buffer := buffer st @ c\<rparr>)"
proof (induction "length (buffer st)" arbitrary: st rule: less_induct)
  case less
  show ?case
  proof (cases "index_of newline (buffer st)")
    case None
    then have "newline \<notin> set (buffer st)" by (simp add: index_of_None)
    then show ?thesis by (simp add: drain_no_newline)
  next
    case (Some i)
    define l where "l = take i (buffer st)"
    define rest where "rest = drop (Suc i) (buffer st)"
    from index_of_Some_split[OF Some]
    have split: "buffer st = l @ newline # rest" and nl: "newline \<notin> set l"
      by (simp_all add: l_def rest_def)
    have shorter: "length rest < length (buffer st)"
      by (subst split) simp
    have split2: "buffer (st\<lparr>buffer := buffer st @ c\<rparr>) = l @ newline # (rest @ c)"
      by (simp add: split)
    from less.prems have nb: "\<not> (case process_line parse l of
        Proceed \<Rightarrow> breaks parse rest | Emit content \<Rightarrow> breaks parse rest
      | Stop \<Rightarrow> True | Push_back \<Rightarrow> True)"
      by (simp add: split breaks_line[OF nl])
    show ?thesis
    proof (cases "process_line parse l")
      case Proceed
      with nb have "\<not> breaks parse rest" by simp
      with less.hyps[of "st\<lparr>buffer := rest\<rparr>"] shorter
      have "drain parse ((drain parse (st\<lparr>buffer := rest\<rparr>))
                \<lparr>buffer := buffer (drain parse (st\<lparr>buffer := rest\<rparr>)) @ c\<rparr>) =
            drain parse (st\<lparr>buffer := rest @ c\<rparr>)"
        by simp
      then show ?thesis
        by (simp add: drain_line[OF nl split] drain_line[OF nl split2] Proceed)
    next
      case (Emit d)
      let ?st' = "st\<lparr>buffer := rest, assistantContent := assistantContent st @ d,
                     snapshots := snapshots st @ [assistantContent st @ d]\<rparr>"
      from Emit nb have "\<not> breaks parse rest" by simp
      with less.hyps[of ?st'] shorter
      have ih: "drain parse ((drain parse ?st')\<lparr>buffer := buffer (drain parse ?st') @ c\<rparr>) =
            drain parse (?st'\<lparr>buffer := buffer ?st' @ c\<rparr>)"
        by simp
      have lhs: "drain parse st = drain parse ?st'"
        by (simp add: drain_line[OF nl split] Emit)
      have r1: "drain parse (st\<lparr>buffer := buffer st @ c\<rparr>) =
            drain parse (st\<lparr>buffer := rest @ c, assistantContent := assistantContent st @ d,
               snapshots := snapshots st @ [assistantContent st @ d]\<rparr>)"
        by (simp add: drain_line[OF nl split2] Emit)
      have r2: "st\<lparr>buffer := rest @ c, assistantContent := assistantContent st @ d,
               snapshots := snapshots st @ [assistantContent st @ d]\<rparr> =
            ?st'\<lparr>buffer := buffer ?st' @ c\<rparr>"
        by (rule stream_state.equality) simp_all
      show ?thesis
        unfolding lhs r1 r2 by (rule ih)
    next
      case Stop
      with nb show ?thesis by simp
    next
      case Push_back
      with nb show ?thesis by simp
    qed
  qed
qed

lemma feed_fusion:
  "\<not> breaks parse (buffer st @ c1) \<Longrightarrow>
   feed parse (feed parse st c1) c2 = feed parse st (c1 @ c2)"
  using drain_fusion[of parse "st\<lparr>buffer := buffer st @ c1\<rparr>" c2]
  by (simp add: feed_def)

lemma trim_eq_Nil: "trim s = [] \<longleftrightarrow> (\<forall>c \<in> set s. is_space c)"
proof
  assume "trim s = []"
  then have "dropWhile is_space (rev (dropWhile is_space s)) = []"
    by (simp add: trim_def)
  then have "\<forall>c \<in> set (dropWhile is_space s). is_space c"
    by (simp add: dropWhile_eq_Nil_conv)
  moreover have "\<forall>c \<in> set (takeWhile is_space s). is_space c"
    by (auto dest: set_takeWhileD)
  moreover have "set s = set (takeWhile is_space s) \<union> set (dropWhile is_space s)"
    by (metis takeWhile_dropWhile_id set_append)
  ultimately show "\<forall>c \<in> set s. is_space c" by blast
next
  assume "\<forall>c \<in> set s. is_space c"
  then show "trim s = []"
    by (auto simp: trim_def dropWhile_eq_Nil_conv dest: set_dropWhileD)
qed

lemma comment_or_blank_strip_cr: "comment_or_blank l \<Longrightarrow> comment_or_blank (strip_cr l)"
proof (cases "ends_with [carriage_return] l")
  case False
  assume "comment_or_blank l"
  with False show ?thesis by (simp add: strip_cr_def)
next
  case True
  assume cb: "comment_or_blank l"
  from True obtain t where l: "l = t @ [carriage_return]"
    by (auto simp: ends_with_def suffix_def)
  have st: "strip_cr l = t" by (simp add: strip_cr_def l ends_with_def)
  from cb consider "starts_with '':'' l" | "trim l = []"
    by (auto simp: comment_or_blank_def)
  then show ?thesis
  proof cases
    case 1
    then have "t \<noteq> []" by (auto simp: l starts_with_def carriage_return_def)
    with 1 have "starts_with '':'' t"
      by (cases t) (auto simp: l starts_with_def)
    then show ?thesis by (simp add: st comment_or_blank_def)
  next
    case 2
    then have "trim t = []" by (simp add: trim_eq_Nil l)
    then show ?thesis by (simp add: st comment_or_blank_def)
  qed
qed

lemma process_line_comment_or_blank: "comment_or_blank l \<Longrightarrow> process_line parse l = Proceed"
  using comment_or_blank_strip_cr[of l]
  by (simp add: process_line_def comment_or_blank_def)

lemma starts_with_data_not_skipped:
  assumes "starts_with ''data: '' l"
  shows "\<not> starts_with '':'' l" and "trim l \<noteq> []"
proof -
  from assms obtain t where l: "l = ''data: '' @ t"
    by (auto simp: starts_with_def prefix_def)
  show "\<not> starts_with '':'' l" by (simp add: l starts_with_def)
  have "\<not> is_space (CHR ''d'')" by (simp add: is_space_def)
  moreover have "CHR ''d'' \<in> set l" by (simp add: l)
  ultimately show "trim l \<noteq> []" by (auto simp: trim_eq_Nil)
qed

lemma process_line_data:
  "data_line parse l d \<Longrightarrow> process_line parse l = (if d = [] then Proceed else Emit d)"
  using starts_with_data_not_skipped[of "strip_cr l"]
  by (auto simp: data_line_def process_line_def Let_def appended_text_def split: option.splits)

lemma process_line_sentinel: "sentinel_line l \<Longrightarrow> process_line parse l = Stop"
  using starts_with_data_not_skipped[of "strip_cr l"]
  by (auto simp: sentinel_line_def process_line_def Let_def)

lemma drain_line_lit:
  assumes "newline \<notin> set l"
  shows "drain parse \<lparr>buffer = l @ newline # rest, assistantContent = a, snapshots = s\<rparr> =
     (case process_line parse l of
        Proceed \<Rightarrow> drain parse \<lparr>buffer = rest, assistantContent = a, snapshots = s\<rparr>
      | Emit d \<Rightarrow> drain parse \<lparr>buffer = rest, assistantContent = a @ d, snapshots = s @ [a @ d]\<rparr>
      | Stop \<Rightarrow> \<lparr>buffer = rest, assistantContent = a, snapshots = s\<rparr>
      | Push_back \<Rightarrow> \<lparr>buffer = strip_cr l @ newline # rest, assistantContent = a, snapshots = s\<rparr>)"
  using drain_line[OF assms, of "\<lparr>buffer = l @ newline # rest, assistantContent = a, snapshots = s\<rparr>" rest parse]
  by (simp split: line_effect.splits)

lemma unlines_Cons: "unlines (l # ls) @ r = l @ newline # (unlines ls @ r)"
  by (simp add: unlines_def)

lemma unlines_Nil: "unlines [] = []"
  by (simp add: unlines_def)

lemma filter_skipped_lit:
  assumes "\<forall>l \<in> set ls. newline \<notin> set l"
  shows "assistantContent (drain parse \<lparr>buffer = unlines (filter (\<lambda>l. \<not> comment_or_blank l) ls) @ r,
             assistantContent = a, snapshots = s\<rparr>) =
         assistantContent (drain parse \<lparr>buffer = unlines ls @ r, assistantContent = a, snapshots = s\<rparr>) \<and>
         snapshots (drain parse \<lparr>buffer = unlines (filter (\<lambda>l. \<not> comment_or_blank l) ls) @ r,
             assistantContent = a, snapshots = s\<rparr>) =
         snapshots (drain parse \<lparr>buffer = unlines ls @ r, assistantContent = a, snapshots = s\<rparr>)"
  using assms
proof (induction ls arbitrary: a s)
  case Nil
  then show ?case by simp
next
  case (Cons l ls)
  then have nl: "newline \<notin> set l" and rest: "\<forall>l \<in> set ls. newline \<notin> set l"
    by simp_all
  note ih = Cons.IH[OF rest]
  show ?case
  proof (cases "comment_or_blank l")
    case True
    then show ?thesis
      using ih[of a s]
      by (simp add: unlines_Cons drain_line_lit[OF nl] process_line_comment_or_blank)
  next
    case False
    show ?thesis
    proof (cases "process_line parse l")
      case Proceed
      then show ?thesis using False ih[of a s]
        by (simp add: unlines_Cons drain_line_lit[OF nl])
    next
      case (Emit d)
      then show ?thesis using False ih[of "a @ d" "s @ [a @ d]"]
        by (simp add: unlines_Cons drain_line_lit[OF nl])
    next
      case Stop
      then show ?thesis using False
        by (simp add: unlines_Cons drain_line_lit[OF nl])
    next
      case Push_back
      then show ?thesis using False
        by (simp add: unlines_Cons drain_line_lit[OF nl])
    qed
  qed
qed

lemma stream_line_no_newline: "stream_line parse l d \<Longrightarrow> newline \<notin> set l"
  by (auto simp: stream_line_def data_line_def)

lemma process_line_stream:
  "stream_line parse l d \<Longrightarrow> process_line parse l = (if d = [] then Proceed else Emit d)"
  by (auto simp: stream_line_def process_line_data process_line_comment_or_blank)

lemma data_lines_stream_lines:
  "list_all2 (data_line parse) ls ds \<Longrightarrow> list_all2 (stream_line parse) ls ds"
  by (erule list_all2_mono) (simp add: stream_line_def)

lemma data_line_not_skipped:
  assumes "data_line parse l d"
  shows "\<not> comment_or_blank l"
proof
  assume cb: "comment_or_blank l"
  from assms have "starts_with ''data: '' (strip_cr l)" by (simp add: data_line_def)
  from starts_with_data_not_skipped[OF this] comment_or_blank_strip_cr[OF cb]
  show False by (simp add: comment_or_blank_def)
qed

lemma filter_stream_lines:
  assumes "list_all2 (stream_line parse) ls ds"
  shows "\<exists>ds'. list_all2 (stream_line parse) (filter (\<lambda>l. \<not> comment_or_blank l) ls) ds' \<and>
               concat ds' = concat ds \<and> (\<forall>a. expected_snapshots a ds' = expected_snapshots a ds)"
  using assms
proof (induction rule: list_all2_induct)
  case Nil
  show ?case by simp
next
  case (Cons l ls d ds)
  then obtain ds' where ds': "list_all2 (stream_line parse) (filter (\<lambda>l. \<not> comment_or_blank l) ls) ds'"
    "concat ds' = concat ds" "\<forall>a. expected_snapshots a ds' = expected_snapshots a ds"
    by blast
  show ?case
  proof (cases "comment_or_blank l")
    case True
    with Cons.hyps(1) have "d = []"
      by (auto simp: stream_line_def dest: data_line_not_skipped)
    with True ds' show ?thesis by auto
  next
    case False
    with Cons.hyps(1) ds' have
      "list_all2 (stream_line parse) (filter (\<lambda>l. \<not> comment_or_blank l) (l # ls)) (d # ds')"
      "concat (d # ds') = concat (d # ds)"
      "\<forall>a. expected_snapshots a (d # ds') = expected_snapshots a (d # ds)"
      by simp_all
    then show ?thesis by blast
  qed
qed

lemma drain_data_lines:
  assumes "list_all2 (stream_line parse) ls ds"
  shows "drain parse \<lparr>buffer = unlines ls @ rest, assistantContent = a, snapshots = s\<rparr> =
         drain parse \<lparr>buffer = rest, assistantContent = a @ concat ds,
                      snapshots = s @ expected_snapshots a ds\<rparr>"
  using assms
proof (induction arbitrary: a s rule: list_all2_induct)
  case Nil
  then show ?case by (simp add: unlines_Nil)
next
  case (Cons l ls d ds)
  from Cons.hyps(1) have nl: "newline \<notin> set l" by (rule stream_line_no_newline)
  show ?case
  proof (cases "d = []")
    case True
    then show ?thesis
      using Cons.IH[of a s] process_line_stream[OF Cons.hyps(1)]
      by (simp add: unlines_Cons drain_line_lit[OF nl])
  next
    case False
    then show ?thesis
      using Cons.IH[of "a @ d" "s @ [a @ d]"] process_line_stream[OF Cons.hyps(1)]
      by (simp add: unlines_Cons drain_line_lit[OF nl])
  qed
qed

lemma drain_stream:
  assumes "list_all2 (stream_line parse) ls ds" and "sentinel_line dl"
  shows "drain parse \<lparr>buffer = unlines ls @ dl @ [newline], assistantContent = a, snapshots = s\<rparr> =
         \<lparr>buffer = [], assistantContent = a @ concat ds, snapshots = s @ expected_snapshots a ds\<rparr>"
proof -
  from assms(2) have nl: "newline \<notin> set dl" by (simp add: sentinel_line_def)
  show ?thesis
    using drain_line_lit[OF nl, of parse "[]"] process_line_sentinel[OF assms(2)]
    by (simp add: drain_data_lines[OF assms(1)])
qed

lemma prefix_line_cases:
  assumes "prefix x (l @ c # R)"
  shows "prefix x l \<or> (\<exists>x'. x = l @ c # x' \<and> prefix x' R)"
proof -
  from assms consider "prefix x l" | us where "x = l @ us" "prefix us (c # R)"
    using prefix_append[of x l "c # R"] by blast
  then show ?thesis
  proof cases
    case 1
    then show ?thesis by simp
  next
    case 2
    show ?thesis
    proof (cases us)
      case Nil
      with 2 show ?thesis by simp
    next
      case (Cons u us')
      with 2 show ?thesis by simp
    qed
  qed
qed

lemma prefix_no_break:
  assumes "list_all2 (stream_line parse) ls ds" and "newline \<notin> set dl"
    and "prefix x (unlines ls @ dl)"
  shows "\<not> breaks parse x"
  using assms
proof (induction arbitrary: x rule: list_all2_induct)
  case Nil
  then have "set x \<subseteq> set dl" by (auto simp: unlines_Nil dest: set_mono_prefix)
  with Nil show ?case by (intro breaks_no_newline) auto
next
  case (Cons l ls d ds)
  from Cons.hyps(1) have nl: "newline \<notin> set l" by (rule stream_line_no_newline)
  have eff: "process_line parse l = (if d = [] then Proceed else Emit d)"
    by (rule process_line_stream[OF Cons.hyps(1)])
  from Cons.prems have "prefix x (l @ newline # (unlines ls @ dl))"
    by (simp only: unlines_Cons)
  then consider "prefix x l" | x' where "x = l @ newline # x'" "prefix x' (unlines ls @ dl)"
    using prefix_line_cases[of x l newline "unlines ls @ dl"] by blast
  then show ?case
  proof cases
    case 1
    then have "set x \<subseteq> set l" by (rule set_mono_prefix)
    with nl show ?thesis by (intro breaks_no_newline) auto
  next
    case 2
    from Cons.IH[OF Cons.prems(1) 2(2)] show ?thesis
      by (simp add: 2(1) breaks_line[OF nl] eff)
  qed
qed

lemma read_loop_snoc: "read_loop parse (cs @ [c]) st = feed parse (read_loop parse cs st) c"
  by (simp add: read_loop_def)

lemma read_loop_prefix:
  assumes "list_all2 (stream_line parse) ls ds" and "sentinel_line dl"
    and "prefix (concat cs) (unlines ls @ dl @ [newline])"
  shows "read_loop parse cs \<lparr>buffer = [], assistantContent = a, snapshots = s\<rparr> =
         drain parse \<lparr>buffer = concat cs, assistantContent = a, snapshots = s\<rparr>"
  using assms(3)
proof (induction cs rule: rev_induct)
  case Nil
  show ?case by (simp add: read_loop_def drain_no_newline)
next
  case (snoc c cs)
  let ?S = "unlines ls @ dl @ [newline]"
  let ?st = "\<lparr>buffer = concat cs, assistantContent = a, snapshots = s\<rparr>"
  from assms(2) have nl: "newline \<notin> set dl" by (simp add: sentinel_line_def)
  from snoc.prems have pre: "prefix (concat cs) ?S"
    by (auto simp: prefix_def)
  then have ih: "read_loop parse cs \<lparr>buffer = [], assistantContent = a, snapshots = s\<rparr> =
                 drain parse ?st"
    by (rule snoc.IH)
  from pre have "prefix (concat cs) ((unlines ls @ dl) @ [newline])" by simp
  then consider "concat cs = ?S" | "prefix (concat cs) (unlines ls @ dl)"
    using prefix_snoc[of "concat cs" "unlines ls @ dl" newline] by auto
  then show ?case
  proof cases
    case 1
    with snoc.prems have c: "c = []" by (auto simp: prefix_def)
    have fin: "drain parse ?st =
        \<lparr>buffer = [], assistantContent = a @ concat ds, snapshots = s @ expected_snapshots a ds\<rparr>"
      unfolding 1 by (rule drain_stream[OF assms(1,2)])
    show ?thesis
      by (simp add: read_loop_snoc ih c fin[unfolded 1] 1 feed_def drain_no_newline)
  next
    case 2
    then have "\<not> breaks parse (buffer ?st)"
      using prefix_no_break[OF assms(1) nl] by simp
    from drain_fusion[OF this, of c] show ?thesis
      by (simp add: read_loop_snoc ih feed_def)
  qed
qed

lemma read_loop_stream:
  assumes "list_all2 (stream_line parse) ls ds" and "sentinel_line dl"
    and "concat chunks = unlines ls @ dl @ [newline]"
  shows "read_loop parse chunks initial_stream =
         \<lparr>buffer = [], assistantContent = concat ds, snapshots = expected_snapshots [] ds\<rparr>"
proof -
  have "prefix (concat chunks) (unlines ls @ dl @ [newline])"
    by (simp add: assms(3))
  from read_loop_prefix[OF assms(1,2) this, of "[]" "[]"]
  have "read_loop parse chunks initial_stream =
        drain parse \<lparr>buffer = unlines ls @ dl @ [newline], assistantContent = [], snapshots = []\<rparr>"
    by (simp add: initial_stream_def assms(3))
  also have "\<dots> = \<lparr>buffer = [], assistantContent = concat ds, snapshots = expected_snapshots [] ds\<rparr>"
    using drain_stream[OF assms(1,2), of "[]" "[]"] by simp
  finally show ?thesis .
qed

lemma expected_snapshots_eq:
  "expected_snapshots a ds =
   map (\<lambda>i. a @ concat (take (Suc i) (filter (\<lambda>d. d \<noteq> []) ds)))
     [0..<length (filter (\<lambda>d. d \<noteq> []) ds)]"
proof (induction ds arbitrary: a)
  case Nil
  show ?case by simp
next
  case (Cons d ds)
  show ?case
  proof (cases "d = []")
    case True
    then show ?thesis by (simp add: Cons.IH)
  next
    case False
    let ?nz = "filter (\<lambda>d. d \<noteq> []) ds"
    have "[0..<Suc (length ?nz)] = 0 # map Suc [0..<length ?nz]"
      by (simp add: upt_conv_Cons map_Suc_upt del: upt_Suc)
    then show ?thesis
      using False by (simp add: Cons.IH[of "a @ d"] del: upt_Suc)
  qed
qed

lemmas sample_defs =
  data_line_def sentinel_line_def hello_line_def world_line_def empty_delta_line_def done_line_def
  sample_parse_def content_payload_def delta_content_def opt_chain_def
  strip_cr_def ends_with_def suffix_to_prefix starts_with_def trim_def is_space_def newline_def carriage_return_def
  unlines_def

lemma sample_data_lines:
  "data_line sample_parse hello_line ''Hello''"
  "data_line sample_parse world_line '' world''"
  "data_line sample_parse empty_delta_line []"
  "data_line sample_parse (hello_line @ [carriage_return]) ''Hello''"
  "sentinel_line done_line"
  by (simp_all add: sample_defs)

lemma trim_snoc_space:
  assumes "is_space c"
  shows "trim (s @ [c]) = trim s"
proof (cases "\<forall>x \<in> set s. is_space x")
  case True
  with assms have "trim (s @ [c]) = []" "trim s = []"
    by (simp_all add: trim_eq_Nil)
  then show ?thesis by simp
next
  case False
  then obtain x where "x \<in> set s" "\<not> is_space x" by blast
  then have "dropWhile is_space (s @ [c]) = dropWhile is_space s @ [c]"
    by (rule dropWhile_append1)
  with assms show ?thesis by (simp add: trim_def)
qed

lemma starts_with_data_butlast:
  assumes "starts_with ''data: '' (t @ [carriage_return])"
  shows "starts_with ''data: '' t" and "drop 6 (t @ [carriage_return]) = drop 6 t @ [carriage_return]"
proof -
  from assms obtain u where u: "t @ [carriage_return] = ''data: '' @ u"
    by (auto simp: starts_with_def prefix_def)
  have "u \<noteq> []"
  proof
    assume "u = []"
    with u have "last (t @ [carriage_return]) = last ''data: ''" by simp
    then show False by (simp add: carriage_return_def)
  qed
  then have "u = butlast u @ [last u]" by simp
  with u have "t @ [carriage_return] = (''data: '' @ butlast u) @ [last u]" by simp
  then have t: "t = ''data: '' @ butlast u" by (simp only: append1_eq_conv)
  then show "starts_with ''data: '' t" by (simp add: starts_with_def)
  from t show "drop 6 (t @ [carriage_return]) = drop 6 t @ [carriage_return]" by simp
qed

lemma process_line_strip_cr:
  assumes "starts_with ''data: '' (strip_cr l)"
  shows "process_line parse (strip_cr l) = process_line parse l"
proof (cases "ends_with [carriage_return] (strip_cr l)")
  case False
  then have "strip_cr (strip_cr l) = strip_cr l" by (simp add: strip_cr_def)
  then show ?thesis by (simp add: process_line_def)
next
  case True
  then obtain t where t: "strip_cr l = t @ [carriage_return]"
    by (auto simp: ends_with_def suffix_def)
  then have st: "strip_cr (strip_cr l) = t" by (simp add: strip_cr_def ends_with_def)
  from assms t have sw: "starts_with ''data: '' (t @ [carriage_return])" by simp
  note d = starts_with_data_butlast[OF sw]
  have sp: "is_space carriage_return" by (simp add: is_space_def carriage_return_def)
  have "drop 6 (strip_cr l) = drop 6 t @ [carriage_return]"
    unfolding t by (rule d(2))
  then have pay: "trim (drop 6 (strip_cr l)) = trim (drop 6 t)"
    by (simp only: trim_snoc_space[OF sp])
  from starts_with_data_not_skipped[OF assms] starts_with_data_not_skipped[OF d(1)] assms d(1)
  show ?thesis
    by (simp add: process_line_def[of parse l] process_line_def[of parse "strip_cr l"] st pay Let_def)
qed

lemma process_line_push_back_again:
  assumes "process_line parse l = Push_back"
  shows "process_line parse (strip_cr l) = Push_back"
proof -
  from assms have "starts_with ''data: '' (strip_cr l)"
    by (auto simp: process_line_def Let_def split: if_splits)
  from process_line_strip_cr[OF this] assms show ?thesis by simp
qed

lemma process_line_Stop_iff:
  assumes "newline \<notin> set l"
  shows "process_line parse l = Stop \<longleftrightarrow> sentinel_line l"
proof
  assume "process_line parse l = Stop"
  with assms show "sentinel_line l"
    by (auto simp: process_line_def sentinel_line_def Let_def split: if_splits option.splits)
next
  assume "sentinel_line l"
  then show "process_line parse l = Stop" by (rule process_line_sentinel)
qed

lemma strip_cr_no_newline: "newline \<notin> set l \<Longrightarrow> newline \<notin> set (strip_cr l)"
  by (auto simp: strip_cr_def dest: in_set_butlastD)

lemma cut_after_lines:
  assumes "\<forall>p \<in> set ps. newline \<notin> set p \<and> \<not> sentinel_line p" and "newline \<notin> set partial"
  shows "assistantContent (drain parse ((drain parse \<lparr>buffer = unlines ps @ partial, assistantContent = a, snapshots = s\<rparr>)
            \<lparr>buffer := buffer (drain parse \<lparr>buffer = unlines ps @ partial, assistantContent = a, snapshots = s\<rparr>) @ c2\<rparr>)) =
         assistantContent (drain parse \<lparr>buffer = unlines ps @ partial @ c2, assistantContent = a, snapshots = s\<rparr>) \<and>
         snapshots (drain parse ((drain parse \<lparr>buffer = unlines ps @ partial, assistantContent = a, snapshots = s\<rparr>)
            \<lparr>buffer := buffer (drain parse \<lparr>buffer = unlines ps @ partial, assistantContent = a, snapshots = s\<rparr>) @ c2\<rparr>)) =
         snapshots (drain parse \<lparr>buffer = unlines ps @ partial @ c2, assistantContent = a, snapshots = s\<rparr>)"
  using assms(1)
proof (induction ps arbitrary: a s)
  case Nil
  have "drain parse \<lparr>buffer = partial, assistantContent = a, snapshots = s\<rparr> =
        \<lparr>buffer = partial, assistantContent = a, snapshots = s\<rparr>"
    using assms(2) by (simp add: drain_no_newline)
  then show ?case by (simp add: unlines_Nil)
next
  case (Cons p ps)
  then have nl: "newline \<notin> set p" and ns: "process_line parse p \<noteq> Stop"
    and rest: "\<forall>p \<in> set ps. newline \<notin> set p \<and> \<not> sentinel_line p"
    by (simp_all add: process_line_Stop_iff)
  note ih = Cons.IH[OF rest]
  have two: "unlines (p # ps) @ partial @ c2 = p @ newline # (unlines ps @ partial @ c2)"
    using unlines_Cons[of p ps "partial @ c2"] by simp
  show ?case
  proof (cases "process_line parse p")
    case Proceed
    then show ?thesis
      using ih[of a s] by (simp add: unlines_Cons two drain_line_lit[OF nl])
  next
    case (Emit d)
    then show ?thesis
      using ih[of "a @ d" "s @ [a @ d]"] by (simp add: unlines_Cons two drain_line_lit[OF nl])
  next
    case Stop
    with ns show ?thesis by simp
  next
    case Push_back
    from process_line_push_back_again[OF this] have again: "process_line parse (strip_cr p) = Push_back" .
    from nl have nl': "newline \<notin> set (strip_cr p)" by (rule strip_cr_no_newline)
    show ?thesis
      by (simp add: unlines_Cons two drain_line_lit[OF nl] Push_back drain_line_lit[OF nl'] again)
  qed
qed

lemma lines_no_break:
  assumes "\<forall>p \<in> set ps. newline \<notin> set p \<and> \<not> sentinel_line p \<and> process_line parse p \<noteq> Push_back"
    and "newline \<notin> set partial"
  shows "\<not> breaks parse (unlines ps @ partial)"
  using assms(1)
proof (induction ps)
  case Nil
  with assms(2) show ?case by (simp add: unlines_Nil breaks_no_newline)
next
  case (Cons p ps)
  then have nl: "newline \<notin> set p" and ns: "process_line parse p \<noteq> Stop"
    and np: "process_line parse p \<noteq> Push_back"
    by (simp_all add: process_line_Stop_iff)
  from Cons have "\<not> breaks parse (unlines ps @ partial)" by simp
  with ns np show ?case
    by (cases "process_line parse p") (simp_all add: unlines_Cons breaks_line[OF nl])
qed

section \<open>Lemmas on the backend and the views\<close>

lemma execute_keeps_message_references:
  assumes "messages_reference_conversations db" and "execute s db = Inr db'"
  shows "messages_reference_conversations db'"
proof (cases s)
  case (Insert_auth_user new_id full_name)
  with assms show ?thesis
    by (auto simp: messages_reference_conversations_def insert_auth_user_def handle_new_user_def
        Let_def split: if_splits)
next
  case (Delete_auth_user u)
  with assms show ?thesis
    by (fastforce simp: messages_reference_conversations_def delete_auth_user_def Let_def image_iff)
next
  case (Delete_user_roles caller userId)
  with assms show ?thesis
    by (auto simp: messages_reference_conversations_def delete_user_roles_def)
next
  case (Insert_user_role caller userId newRole)
  with assms show ?thesis
    by (auto simp: messages_reference_conversations_def insert_user_role_def split: if_splits)
next
  case (Insert_legal_document caller d)
  with assms show ?thesis
    by (auto simp: messages_reference_conversations_def insert_legal_document_def split: if_splits)
next
  case (Insert_conversation caller new_id user_id title)
  with assms show ?thesis
    by (auto simp: messages_reference_conversations_def insert_conversation_def Let_def
        split: if_splits)
next
  case (Update_conversation_title caller cid title)
  with assms have db': "db' = db\<lparr>conversations :=
       map (\<lambda>c. if conv_id c = cid \<and> conversations_own caller c then c\<lparr>conv_title := title\<rparr> else c)
         (conversations db)\<rparr>"
    by (simp add: update_conversation_title_def)
  have "map conv_id (conversations db') = map conv_id (conversations db)"
    by (simp add: db' comp_def if_distrib[of conv_id])
  then have "conv_id ` set (conversations db') = conv_id ` set (conversations db)"
    by (metis set_map)
  moreover have "messages db' = messages db"
    by (simp add: db')
  ultimately show ?thesis
    using assms(1) by (simp add: messages_reference_conversations_def)
next
  case (Delete_conversation caller cid)
  with assms show ?thesis
    by (fastforce simp: messages_reference_conversations_def delete_conversation_def Let_def image_iff)
next
  case (Insert_message caller m)
  with assms show ?thesis
    by (auto simp: messages_reference_conversations_def insert_message_def split: if_splits)
qed

lemma execute_keeps_conversation_ids_unique:
  assumes "conversation_ids_unique db" and "execute s db = Inr db'"
  shows "conversation_ids_unique db'"
proof (cases s)
  case (Insert_auth_user new_id full_name)
  with assms show ?thesis
    by (auto simp: conversation_ids_unique_def insert_auth_user_def handle_new_user_def
        Let_def split: if_splits)
next
  case (Delete_auth_user u)
  with assms show ?thesis
    by (auto simp: conversation_ids_unique_def delete_auth_user_def Let_def distinct_map_filter)
next
  case (Delete_user_roles caller userId)
  with assms show ?thesis
    by (auto simp: conversation_ids_unique_def delete_user_roles_def)
next
  case (Insert_user_role caller userId newRole)
  with assms show ?thesis
    by (auto simp: conversation_ids_unique_def insert_user_role_def split: if_splits)
next
  case (Insert_legal_document caller d)
  with assms show ?thesis
    by (auto simp: conversation_ids_unique_def insert_legal_document_def split: if_splits)
next
  case (Insert_conversation caller new_id user_id title)
  with assms show ?thesis
    by (auto simp: conversation_ids_unique_def insert_conversation_def Let_def
        split: if_splits)
next
  case (Update_conversation_title caller cid title)
  with assms have db': "db' = db\<lparr>conversations :=
       map (\<lambda>c. if conv_id c = cid \<and> conversations_own caller c then c\<lparr>conv_title := title\<rparr> else c)
         (conversations db)\<rparr>"
    by (simp add: update_conversation_title_def)
  have "map conv_id (conversations db') = map conv_id (conversations db)"
    by (simp add: db' comp_def if_distrib[of conv_id])
  with assms(1) show ?thesis
    by (simp add: conversation_ids_unique_def)
next
  case (Delete_conversation caller cid)
  with assms show ?thesis
    by (auto simp: conversation_ids_unique_def delete_conversation_def Let_def distinct_map_filter)
next
  case (Insert_message caller m)
  with assms show ?thesis
    by (auto simp: conversation_ids_unique_def insert_message_def split: if_splits)
qed

lemma sample_db_constraints:
  "messages_reference_conversations sample_db"
  "conversation_ids_unique sample_db"
  "roles_reference_users sample_db"
  "distinct (user_roles sample_db)"
  by (simp_all add: sample_db_def messages_reference_conversations_def conversation_ids_unique_def
      roles_reference_users_def)


lemma delete_user_roles_admin:
  assumes "has_role db caller Admin"
  shows "delete_user_roles caller userId db =
         Inr (db\<lparr>user_roles := filter (\<lambda>row. fst row \<noteq> userId) (user_roles db)\<rparr>)"
  using assms
  by (simp add: delete_user_roles_def user_roles_admin_all_def user_roles_view_own_def
      sql_and_def sql_or_def passes_def)



lemma role_change_success:
  assumes "handleRoleChange delivered sess userId newRole db = (Some t, db')"
    and "toast_title t = ''Role updated''"
  shows "roles_of db' userId = [newRole]"
proof -
  let ?caller = "session_user sess"
  from assms obtain db1 where
    d: "delete_user_roles ?caller userId db = Inr db1" and
    i: "insert_user_role ?caller userId newRole db1 = Inr db'"
    by (auto simp: handleRoleChange_def request_def split: if_splits sum.splits)
  from i have adm1: "has_role db1 ?caller Admin"
    and db': "db' = db1\<lparr>user_roles := user_roles db1 @ [(userId, newRole)]\<rparr>"
    by (auto simp: insert_user_role_def user_roles_admin_all_def passes_def split: if_splits)
  have sub: "set (user_roles db1) \<subseteq> set (user_roles db)"
    using d by (auto simp: delete_user_roles_def)
  with adm1 have "has_role db ?caller Admin"
    by (auto simp: has_role_def split: option.splits)
  from delete_user_roles_admin[OF this, of userId] d
  have "user_roles db1 = filter (\<lambda>row. fst row \<noteq> userId) (user_roles db)"
    by auto
  then have "filter (\<lambda>r. fst r = userId) (user_roles db1) = []"
    by (simp add: filter_empty_conv)
  then show ?thesis by (simp add: roles_of_def db')
qed


lemma execute_user_roles:
  assumes "execute s db = Inr db'"
  shows "(user_roles db' = user_roles db \<and> auth_users db' = auth_users db) \<or>
         (\<exists>p. user_roles db' = filter p (user_roles db) \<and> auth_users db' = auth_users db) \<or>
         (\<exists>u. user_roles db' = filter (\<lambda>r. fst r \<noteq> u) (user_roles db) \<and>
              auth_users db' = filter (\<lambda>x. x \<noteq> u) (auth_users db)) \<or>
         (\<exists>row. user_roles db' = user_roles db @ [row] \<and> row \<notin> set (user_roles db) \<and>
              fst row \<in> set (auth_users db') \<and> set (auth_users db) \<subseteq> set (auth_users db'))"
proof (cases s)
  case (Insert_auth_user new_id full_name)
  with assms have "user_roles db' = user_roles db @ [(new_id, User)]"
    "(new_id, User) \<notin> set (user_roles db)" "auth_users db' = auth_users db @ [new_id]"
    by (auto simp: insert_auth_user_def handle_new_user_def Let_def split: if_splits)
  then have "user_roles db' = user_roles db @ [(new_id, User)] \<and> (new_id, User) \<notin> set (user_roles db) \<and>
              fst (new_id, User) \<in> set (auth_users db') \<and> set (auth_users db) \<subseteq> set (auth_users db')"
    by auto
  then show ?thesis by blast
next
  case (Delete_auth_user u)
  with assms have "user_roles db' = filter (\<lambda>r. fst r \<noteq> u) (user_roles db) \<and>
    auth_users db' = filter (\<lambda>x. x \<noteq> u) (auth_users db)"
    by (auto simp: delete_auth_user_def Let_def)
  then show ?thesis by blast
next
  case (Delete_user_roles caller userId)
  with assms have "\<exists>p. user_roles db' = filter p (user_roles db) \<and> auth_users db' = auth_users db"
    by (auto simp: delete_user_roles_def)
  then show ?thesis by blast
next
  case (Insert_user_role caller userId newRole)
  with assms have "user_roles db' = user_roles db @ [(userId, newRole)] \<and>
    (userId, newRole) \<notin> set (user_roles db) \<and> fst (userId, newRole) \<in> set (auth_users db') \<and>
    set (auth_users db) \<subseteq> set (auth_users db')"
    by (auto simp: insert_user_role_def split: if_splits)
  then show ?thesis by blast
next
  case (Insert_legal_document caller d)
  with assms have "user_roles db' = user_roles db \<and> auth_users db' = auth_users db"
    by (auto simp: insert_legal_document_def split: if_splits)
  then show ?thesis by (rule disjI1)
next
  case (Insert_conversation caller new_id user_id title)
  with assms have "user_roles db' = user_roles db \<and> auth_users db' = auth_users db"
    by (auto simp: insert_conversation_def Let_def split: if_splits)
  then show ?thesis by (rule disjI1)
next
  case (Update_conversation_title caller cid title)
  with assms have "user_roles db' = user_roles db \<and> auth_users db' = auth_users db"
    by (auto simp: update_conversation_title_def)
  then show ?thesis by (rule disjI1)
next
  case (Delete_conversation caller cid)
  with assms have "user_roles db' = user_roles db \<and> auth_users db' = auth_users db"
    by (auto simp: delete_conversation_def Let_def)
  then show ?thesis by (rule disjI1)
next
  case (Insert_message caller m)
  with assms have "user_roles db' = user_roles db \<and> auth_users db' = auth_users db"
    by (auto simp: insert_message_def split: if_splits)
  then show ?thesis by (rule disjI1)
qed

lemma execute_keeps_roles_unique:
  assumes "distinct (user_roles db)" and "execute s db = Inr db'"
  shows "distinct (user_roles db')"
  using execute_user_roles[OF assms(2)] assms(1) by auto

lemma execute_keeps_role_references:
  assumes "roles_reference_users db" and "execute s db = Inr db'"
  shows "roles_reference_users db'"
  using execute_user_roles[OF assms(2)] assms(1)
  unfolding roles_reference_users_def by (elim disjE exE conjE) auto

lemma new_user_roles:
  assumes "roles_reference_users db" and "insert_auth_user new_id full_name db = Inr db'"
  shows "roles_of db' new_id = [User]"
proof -
  from assms(2) have new: "new_id \<notin> set (auth_users db)"
    and db': "user_roles db' = user_roles db @ [(new_id, User)]"
    by (auto simp: insert_auth_user_def handle_new_user_def Let_def split: if_splits)
  from new assms(1) have "\<forall>r \<in> set (user_roles db). fst r \<noteq> new_id"
    by (auto simp: roles_reference_users_def)
  then have "filter (\<lambda>r. fst r = new_id) (user_roles db) = []"
    by (simp add: filter_empty_conv)
  then show ?thesis by (simp add: roles_of_def db')
qed

lemma role_change_interrupted:
  "handleRoleChange (\<lambda>i. i = 0) (session_of 1 Admin) 4 Legal_analyst sample_db =
     (Some \<lparr>toast_title = ''Error updating role'',
            toast_description = Some (Error_message Transport_failure),
            destructive = True\<rparr>,
      sample_db\<lparr>user_roles := [(1, Admin), (2, Legal_analyst), (3, User)]\<rparr>) \<and>
   roles_of (sample_db\<lparr>user_roles := [(1, Admin), (2, Legal_analyst), (3, User)]\<rparr>) 4 = []"
  by (simp add: handleRoleChange_def request_def delete_user_roles_def insert_user_role_def
        user_roles_admin_all_def user_roles_view_own_def has_role_def passes_def sql_and_def
        sql_or_def sql_eq_def sample_db_def session_of_def roles_of_def)








section \<open>Properties\<close>

subsection \<open>C1\<close>

text \<open>
  C1, as amended: for every sequence of chunks whose concatenation is N well-formed data
  lines followed by a line with the end marker, the reader emits one snapshot for each
  data line whose delta is not empty and none for an empty delta; the i-th snapshot is the
  concatenation of the first i non-empty deltas, so every snapshot extends the one before;
  the accumulated text at the end is the concatenation of all deltas, and the line of the
  end marker is consumed without being parsed, leaving the buffer empty. When no delta is
  empty this is exactly N snapshots. A well-formed data line begins with the six
  characters \<open>data: \<close> and its payload parses to a value with a string at
  \<open>choices[0].delta.content\<close>; the theorem holds whatever \<open>JSON.parse\<close> would make of the
  end marker.
\<close>

theorem well_formed_stream:
  assumes "list_all2 (data_line parse) ls ds" and "sentinel_line dl"
    and "concat chunks = unlines ls @ dl @ [newline]"
  shows "read_loop parse chunks initial_stream =
         \<lparr>buffer = [], assistantContent = concat ds,
          snapshots = map (\<lambda>i. concat (take (Suc i) (filter (\<lambda>d. d \<noteq> []) ds)))
                        [0..<length (filter (\<lambda>d. d \<noteq> []) ds)]\<rparr>"
  using read_loop_stream[OF data_lines_stream_lines[OF assms(1)] assms(2,3)]
  by (simp add: expected_snapshots_eq)

theorem well_formed_stream_witness:
  "list_all2 (data_line sample_parse) [hello_line @ [carriage_return], world_line] [''Hello'', '' world''] \<and>
   sentinel_line done_line \<and>
   concat [''data: {\"cho'', ''ices\":[{\"delta\":{\"content\":\"Hello\"}}]}'' @ [carriage_return, newline] @ ''da'',
           ''ta: {\"choices\":[{\"delta\":{\"content\":\" world\"}}]}'' @ [newline] @ ''data: [DONE]'' @ [newline]] =
     unlines [hello_line @ [carriage_return], world_line] @ done_line @ [newline] \<and>
   read_loop sample_parse
     [''data: {\"cho'', ''ices\":[{\"delta\":{\"content\":\"Hello\"}}]}'' @ [carriage_return, newline] @ ''da'',
      ''ta: {\"choices\":[{\"delta\":{\"content\":\" world\"}}]}'' @ [newline] @ ''data: [DONE]'' @ [newline]]
     initial_stream =
   \<lparr>buffer = [], assistantContent = ''Hello world'', snapshots = [''Hello'', ''Hello world'']\<rparr>"
proof -
  have h1: "list_all2 (data_line sample_parse) [hello_line @ [carriage_return], world_line] [''Hello'', '' world'']"
    by (simp add: sample_data_lines)
  have h2: "sentinel_line done_line"
    by (rule sample_data_lines)
  have h3: "concat [''data: {\"cho'', ''ices\":[{\"delta\":{\"content\":\"Hello\"}}]}'' @ [carriage_return, newline] @ ''da'',
           ''ta: {\"choices\":[{\"delta\":{\"content\":\" world\"}}]}'' @ [newline] @ ''data: [DONE]'' @ [newline]] =
     unlines [hello_line @ [carriage_return], world_line] @ done_line @ [newline]"
    by (simp add: unlines_def hello_line_def world_line_def done_line_def)
  have "[0..<2] = [0, Suc 0]" by (simp add: upt_rec)
  with well_formed_stream[OF h1 h2 h3] h1 h2 h3 show ?thesis
    by simp
qed

text \<open>As the specification states it, the claim fails on one well-formed data line whose
  delta is the empty string: the line is consumed and no snapshot is emitted.\<close>

theorem well_formed_stream_counterexample:
  "list_all2 (data_line sample_parse) [empty_delta_line] [[]] \<and> sentinel_line done_line \<and>
   length (snapshots (read_loop sample_parse
     [empty_delta_line @ [newline] @ done_line @ [newline]] initial_stream)) \<noteq> length [empty_delta_line]"
proof -
  have h1: "list_all2 (data_line sample_parse) [empty_delta_line] [[]]"
    by (simp add: sample_data_lines)
  have h2: "sentinel_line done_line"
    by (rule sample_data_lines)
  have "concat [empty_delta_line @ [newline] @ done_line @ [newline]] =
        unlines [empty_delta_line] @ done_line @ [newline]"
    by (simp add: unlines_def)
  from read_loop_stream[OF data_lines_stream_lines[OF h1] h2 this] h1 h2 show ?thesis
    by simp
qed

subsection \<open>C2\<close>

text \<open>
  C2, as amended: for every input stream and every cut of it into two chunks at an offset
  inside a line, the reader ends with the same accumulated text and the same snapshots as
  when the stream arrives in one chunk, provided that no line with the end marker comes
  before the line that is cut: no delta is repeated and none is lost. The line that is cut
  is any line, what comes before it is any lines without the end marker (data lines,
  comment lines, blank lines, other lines, lines whose payload does not parse), and what
  follows it is any text. When moreover no line before the cut has a payload that fails to
  parse, the whole state of the reader is the same, whatever chunks follow. And for a
  stream of well-formed data lines, with or without comment lines and blank lines, ended
  by the end marker, any two ways of cutting it into chunks give the same result.
\<close>

theorem split_line:
  assumes "\<forall>p \<in> set ps. newline \<notin> set p \<and> \<not> sentinel_line p"
    and "newline \<notin> set line" and "k \<le> length line"
  shows "assistantContent
           (read_loop parse [unlines ps @ take k line, drop k line @ newline # post] initial_stream) =
         assistantContent (read_loop parse [unlines ps @ line @ newline # post] initial_stream) \<and>
         snapshots
           (read_loop parse [unlines ps @ take k line, drop k line @ newline # post] initial_stream) =
         snapshots (read_loop parse [unlines ps @ line @ newline # post] initial_stream) \<and>
         ((\<forall>p \<in> set ps. process_line parse p \<noteq> Push_back) \<longrightarrow>
            read_loop parse ((unlines ps @ take k line) # (drop k line @ newline # post) # rest)
              initial_stream =
            read_loop parse ((unlines ps @ line @ newline # post) # rest) initial_stream) \<and>
         (list_all2 (stream_line parse) ls ds \<and> sentinel_line dl \<and>
          concat chunks1 = unlines ls @ dl @ [newline] \<and>
          concat chunks2 = unlines ls @ dl @ [newline] \<longrightarrow>
            read_loop parse chunks1 initial_stream = read_loop parse chunks2 initial_stream)"
proof -
  let ?c1 = "unlines ps @ take k line"
  let ?c2 = "drop k line @ newline # post"
  from assms(2) have part: "newline \<notin> set (take k line)" by (auto dest: in_set_takeD)
  have whole: "unlines ps @ line @ newline # post = unlines ps @ take k line @ ?c2"
    by simp
  have runs: "read_loop parse [?c1, ?c2] initial_stream =
      drain parse ((drain parse \<lparr>buffer = ?c1, assistantContent = [], snapshots = []\<rparr>)
        \<lparr>buffer := buffer (drain parse \<lparr>buffer = ?c1, assistantContent = [], snapshots = []\<rparr>) @ ?c2\<rparr>)"
    "read_loop parse [unlines ps @ take k line @ ?c2] initial_stream =
      drain parse \<lparr>buffer = unlines ps @ take k line @ ?c2, assistantContent = [], snapshots = []\<rparr>"
    by (simp_all add: read_loop_def feed_def initial_stream_def)
  from cut_after_lines[OF assms(1) part, of parse "[]" "[]" ?c2]
  have same_text: "assistantContent (read_loop parse [?c1, ?c2] initial_stream) =
         assistantContent (read_loop parse [unlines ps @ line @ newline # post] initial_stream)"
    and snaps: "snapshots (read_loop parse [?c1, ?c2] initial_stream) =
         snapshots (read_loop parse [unlines ps @ line @ newline # post] initial_stream)"
    unfolding whole runs by simp_all
  have state: "read_loop parse (?c1 # ?c2 # rest) initial_stream =
      read_loop parse ((unlines ps @ line @ newline # post) # rest) initial_stream"
    if "\<forall>p \<in> set ps. process_line parse p \<noteq> Push_back"
  proof -
    from assms(1) that
    have "\<forall>p \<in> set ps. newline \<notin> set p \<and> \<not> sentinel_line p \<and> process_line parse p \<noteq> Push_back"
      by blast
    from lines_no_break[OF this part] have "\<not> breaks parse (buffer initial_stream @ ?c1)"
      by (simp add: initial_stream_def)
    then have "feed parse (feed parse initial_stream ?c1) ?c2 = feed parse initial_stream (?c1 @ ?c2)"
      by (rule feed_fusion)
    moreover have "?c1 @ ?c2 = unlines ps @ line @ newline # post"
      by simp
    ultimately have "feed parse (feed parse initial_stream ?c1) ?c2 =
        feed parse initial_stream (unlines ps @ line @ newline # post)"
      by (simp only:)
    then show ?thesis
      unfolding read_loop_def by (simp only: foldl.simps)
  qed
  have chunks: "read_loop parse chunks1 initial_stream = read_loop parse chunks2 initial_stream"
    if "list_all2 (stream_line parse) ls ds" "sentinel_line dl"
      "concat chunks1 = unlines ls @ dl @ [newline]" "concat chunks2 = unlines ls @ dl @ [newline]"
    using read_loop_stream[OF that(1,2,3)] read_loop_stream[OF that(1,2,4)] by simp
  from same_text snaps state chunks show ?thesis by blast
qed

theorem split_line_witness:
  "list_all (\<lambda>p. newline \<notin> set p \<and> \<not> sentinel_line p) ['': keep-alive'', hello_line] \<and>
   newline \<notin> set world_line \<and> 11 \<le> length world_line \<and>
   take 11 world_line = ''data: {\"cho'' \<and>
   assistantContent (read_loop sample_parse
     [unlines ['': keep-alive'', hello_line] @ take 11 world_line,
      drop 11 world_line @ newline # done_line @ [newline]] initial_stream) = ''Hello world'' \<and>
   snapshots (read_loop sample_parse
     [unlines ['': keep-alive'', hello_line] @ take 11 world_line,
      drop 11 world_line @ newline # done_line @ [newline]] initial_stream) = [''Hello'', ''Hello world'']"
proof -
  have h1: "\<forall>p \<in> set ['': keep-alive'', hello_line]. newline \<notin> set p \<and> \<not> sentinel_line p"
    by (simp add: sample_defs)
  then have h1': "list_all (\<lambda>p. newline \<notin> set p \<and> \<not> sentinel_line p) ['': keep-alive'', hello_line]"
    by (simp only: list_all_iff)
  have h2: "newline \<notin> set world_line" "11 \<le> length world_line"
    "take 11 world_line = ''data: {\"cho''"
    by (simp_all add: world_line_def newline_def)
  have lines: "list_all2 (stream_line sample_parse) ['': keep-alive'', hello_line, world_line]
      [[], ''Hello'', '' world'']"
    by (simp add: stream_line_def sample_data_lines comment_or_blank_def starts_with_def newline_def)
  have "concat [unlines ['': keep-alive'', hello_line] @ world_line @ newline # done_line @ [newline]] =
      unlines ['': keep-alive'', hello_line, world_line] @ done_line @ [newline]"
    by (simp add: unlines_def)
  from read_loop_stream[OF lines sample_data_lines(5) this]
  have whole: "read_loop sample_parse
      [unlines ['': keep-alive'', hello_line] @ world_line @ newline # done_line @ [newline]] initial_stream =
      \<lparr>buffer = [], assistantContent = ''Hello world'', snapshots = [''Hello'', ''Hello world'']\<rparr>"
    by simp
  from split_line[OF h1 h2(1,2), where parse = sample_parse and post = "done_line @ [newline]"]
  have "assistantContent (read_loop sample_parse
     [unlines ['': keep-alive'', hello_line] @ take 11 world_line,
      drop 11 world_line @ newline # done_line @ [newline]] initial_stream) = ''Hello world''"
    and "snapshots (read_loop sample_parse
     [unlines ['': keep-alive'', hello_line] @ take 11 world_line,
      drop 11 world_line @ newline # done_line @ [newline]] initial_stream) = [''Hello'', ''Hello world'']"
    by (simp_all only: whole stream_state.simps)
  with h1' h2 show ?thesis by (simp only: simp_thms)
qed

text \<open>As the specification states it, the claim fails when a line with the end marker comes
  before the line that is cut: the loop leaves at the end marker and what follows it in the
  chunk stays in the buffer. Cut inside the data line, the rest of the line arrives with a
  second chunk and the delta is appended; in one chunk, nothing more is read and the delta
  is lost.\<close>

theorem split_line_counterexample:
  "data_line sample_parse hello_line ''Hello'' \<and>
   [done_line @ [newline] @ take 11 hello_line, drop 11 hello_line @ [newline]] =
     [''data: [DONE]'' @ [newline] @ ''data: {\"cho'',
      ''ices\":[{\"delta\":{\"content\":\"Hello\"}}]}'' @ [newline]] \<and>
   assistantContent (read_loop sample_parse
     [done_line @ [newline] @ take 11 hello_line, drop 11 hello_line @ [newline]] initial_stream) =
     ''Hello'' \<and>
   assistantContent (read_loop sample_parse
     [done_line @ [newline] @ hello_line @ [newline]] initial_stream) = []"
proof -
  have nd: "newline \<notin> set done_line" and nh: "newline \<notin> set hello_line"
    by (simp_all add: done_line_def hello_line_def newline_def)
  have stop: "process_line sample_parse done_line = Stop"
    by (rule process_line_sentinel[OF sample_data_lines(5)])
  have emit: "process_line sample_parse hello_line = Emit ''Hello''"
    using process_line_data[OF sample_data_lines(1)] by simp
  have part: "newline \<notin> set (take 11 hello_line)"
    using nh by (auto dest: in_set_takeD)
  have first: "feed sample_parse initial_stream (done_line @ [newline] @ take 11 hello_line) =
      \<lparr>buffer = take 11 hello_line, assistantContent = [], snapshots = []\<rparr>"
    using drain_line_lit[OF nd, of sample_parse "take 11 hello_line" "[]" "[]"] stop
    by (simp add: feed_def initial_stream_def)
  have second: "feed sample_parse \<lparr>buffer = take 11 hello_line, assistantContent = [], snapshots = []\<rparr>
      (drop 11 hello_line @ [newline]) =
      \<lparr>buffer = [], assistantContent = ''Hello'', snapshots = [''Hello'']\<rparr>"
  proof -
    have buf: "take 11 hello_line @ drop 11 hello_line @ [newline] = hello_line @ [newline]"
      by (simp only: append_assoc[symmetric] append_take_drop_id)
    have "feed sample_parse \<lparr>buffer = take 11 hello_line, assistantContent = [], snapshots = []\<rparr>
        (drop 11 hello_line @ [newline]) =
        drain sample_parse \<lparr>buffer = hello_line @ newline # [], assistantContent = [], snapshots = []\<rparr>"
      unfolding feed_def by (simp add: buf)
    also have "\<dots> = \<lparr>buffer = [], assistantContent = ''Hello'', snapshots = [''Hello'']\<rparr>"
      using drain_line_lit[OF nh, of sample_parse "[]" "[]" "[]"] emit
      by (simp add: drain_no_newline)
    finally show ?thesis .
  qed
  have whole: "feed sample_parse initial_stream (done_line @ [newline] @ hello_line @ [newline]) =
      \<lparr>buffer = hello_line @ [newline], assistantContent = [], snapshots = []\<rparr>"
    using drain_line_lit[OF nd, of sample_parse "hello_line @ [newline]" "[]" "[]"] stop
    by (simp add: feed_def initial_stream_def)
  have pieces: "[done_line @ [newline] @ take 11 hello_line, drop 11 hello_line @ [newline]] =
     [''data: [DONE]'' @ [newline] @ ''data: {\"cho'',
      ''ices\":[{\"delta\":{\"content\":\"Hello\"}}]}'' @ [newline]]"
    by (simp add: done_line_def hello_line_def)
  from first second whole pieces sample_data_lines(1) show ?thesis
    by (simp add: read_loop_def)
qed

subsection \<open>C3\<close>

text \<open>
  C3, as amended: the backend keeps each pair of a user and a role at most once, so a user
  holds every role of admin, legal_analyst and user at most once, and it keeps every role
  row on an existing user; both constraints survive every statement. Account creation
  leaves the new user with exactly the role user, and a role change that reports success
  leaves its target with exactly one role, the new one.
\<close>

theorem role_assignment:
  assumes "distinct (user_roles db)" and "roles_reference_users db"
  shows "(execute s db = Inr db1 \<longrightarrow> distinct (user_roles db1) \<and> roles_reference_users db1) \<and>
         distinct (roles_of db u) \<and>
         (insert_auth_user new_id full_name db = Inr db2 \<longrightarrow> roles_of db2 new_id = [User]) \<and>
         (handleRoleChange delivered sess userId newRole db = (Some t, db3) \<and>
            toast_title t = ''Role updated'' \<longrightarrow> roles_of db3 userId = [newRole])"
proof (intro conjI impI)
  assume "execute s db = Inr db1"
  with assms show "distinct (user_roles db1)" "roles_reference_users db1"
    by (blast intro: execute_keeps_roles_unique execute_keeps_role_references)+
next
  have "inj_on snd {r \<in> set (user_roles db). fst r = u}"
    by (auto simp: inj_on_def)
  with assms(1) show "distinct (roles_of db u)"
    by (simp add: roles_of_def distinct_map)
next
  assume "insert_auth_user new_id full_name db = Inr db2"
  with assms(2) show "roles_of db2 new_id = [User]"
    by (rule new_user_roles)
next
  assume "handleRoleChange delivered sess userId newRole db = (Some t, db3) \<and>
            toast_title t = ''Role updated''"
  then show "roles_of db3 userId = [newRole]"
    using role_change_success by blast
qed

theorem role_assignment_witness:
  "distinct (user_roles sample_db) \<and> roles_reference_users sample_db \<and>
   handleRoleChange (\<lambda>i. True) (session_of 1 Admin) 4 Legal_analyst sample_db =
     (Some \<lparr>toast_title = ''Role updated'',
            toast_description = Some (Text ''User role has been changed to legal_analyst.''),
            destructive = False\<rparr>,
      sample_db\<lparr>user_roles := [(1, Admin), (2, Legal_analyst), (3, User), (4, Legal_analyst)]\<rparr>) \<and>
   roles_of (sample_db\<lparr>user_roles := [(1, Admin), (2, Legal_analyst), (3, User), (4, Legal_analyst)]\<rparr>) 4 =
     [Legal_analyst]"
proof -
  have run: "handleRoleChange (\<lambda>i. True) (session_of 1 Admin) 4 Legal_analyst sample_db =
     (Some \<lparr>toast_title = ''Role updated'',
            toast_description = Some (Text ''User role has been changed to legal_analyst.''),
            destructive = False\<rparr>,
      sample_db\<lparr>user_roles := [(1, Admin), (2, Legal_analyst), (3, User), (4, Legal_analyst)]\<rparr>)"
    by (simp add: handleRoleChange_def request_def delete_user_roles_def insert_user_role_def
        user_roles_admin_all_def user_roles_view_own_def has_role_def passes_def sql_and_def
        sql_or_def sql_eq_def sample_db_def session_of_def)
  from role_assignment[OF sample_db_constraints(4,3),
      where delivered = "\<lambda>i. True" and sess = "session_of 1 Admin" and userId = 4
        and newRole = Legal_analyst
        and t = "\<lparr>toast_title = ''Role updated'',
            toast_description = Some (Text ''User role has been changed to legal_analyst.''),
            destructive = False\<rparr>"
        and ?db3.0 = "sample_db\<lparr>user_roles := [(1, Admin), (2, Legal_analyst), (3, User), (4, Legal_analyst)]\<rparr>"] run
  have "roles_of (sample_db\<lparr>user_roles := [(1, Admin), (2, Legal_analyst), (3, User), (4, Legal_analyst)]\<rparr>) 4 =
     [Legal_analyst]"
    by simp
  with run sample_db_constraints(4,3) show ?thesis by simp
qed

text \<open>As the specification states it, the claim fails: the uniqueness declared on
  \<open>user_roles\<close> is on the pair (user_id, role), and the backend accepts a second role for a
  user from an administrator.\<close>

theorem role_assignment_counterexample:
  "distinct (user_roles sample_db) \<and> roles_reference_users sample_db \<and>
   roles_of sample_db 4 = [User] \<and>
   execute (Insert_user_role (Some 1) 4 Admin) sample_db =
     Inr (sample_db\<lparr>user_roles := user_roles sample_db @ [(4, Admin)]\<rparr>) \<and>
   roles_of (sample_db\<lparr>user_roles := user_roles sample_db @ [(4, Admin)]\<rparr>) 4 = [User, Admin]"
  by (simp add: sample_db_def roles_reference_users_def roles_of_def insert_user_role_def
      user_roles_admin_all_def has_role_def passes_def)

subsection \<open>C4\<close>




subsection \<open>C5\<close>

text \<open>
  C5: an unvalidated document uploaded by U1 is left out of the documents fetched by a user
  other than U1 whose role is user, and is among the documents fetched by U1, by an
  administrator and by a legal analyst.
\<close>

theorem document_visibility:
  assumes "d \<in> set (legal_documents db)" and "validated d \<noteq> Some True" and "uploaded_by d = Some u1"
    and "session_user sess = Some q"
  shows "(get_user_role db q = Some User \<and> q \<noteq> u1 \<longrightarrow> d \<notin> set (fetchDocuments sess db)) \<and>
         (q = u1 \<or> has_role db (Some q) Admin \<or> has_role db (Some q) Legal_analyst \<longrightarrow>
            d \<in> set (fetchDocuments sess db))"
  using assms
  by (auto simp: fetchDocuments_def select_legal_documents_def legal_documents_select_def
      authenticated_def passes_def sql_or_def sql_eq_def has_role_def get_user_role_def
      split: option.splits if_splits)

theorem document_visibility_witness:
  "lease_act \<in> set (legal_documents sample_db) \<and> validated lease_act \<noteq> Some True \<and>
   uploaded_by lease_act = Some 3 \<and> get_user_role sample_db 4 = Some User \<and>
   lease_act \<notin> set (fetchDocuments (session_of 4 User) sample_db) \<and>
   lease_act \<in> set (fetchDocuments (session_of 3 User) sample_db) \<and>
   has_role sample_db (Some 1) Admin \<and>
   lease_act \<in> set (fetchDocuments (session_of 1 Admin) sample_db) \<and>
   has_role sample_db (Some 2) Legal_analyst \<and>
   lease_act \<in> set (fetchDocuments (session_of 2 Legal_analyst) sample_db)"
proof -
  have h: "lease_act \<in> set (legal_documents sample_db)" "validated lease_act \<noteq> Some True"
    "uploaded_by lease_act = Some 3"
    by (simp_all add: sample_db_def lease_act_def)
  have r: "get_user_role sample_db 4 = Some User" "has_role sample_db (Some 1) Admin"
    "has_role sample_db (Some 2) Legal_analyst"
    by (simp_all add: sample_db_def get_user_role_def has_role_def)
  from document_visibility[OF h, of "session_of 4 User" 4] r
  have "lease_act \<notin> set (fetchDocuments (session_of 4 User) sample_db)"
    by (simp add: session_of_def)
  moreover from document_visibility[OF h, of "session_of 3 User" 3]
  have "lease_act \<in> set (fetchDocuments (session_of 3 User) sample_db)"
    by (simp add: session_of_def)
  moreover from document_visibility[OF h, of "session_of 1 Admin" 1] r
  have "lease_act \<in> set (fetchDocuments (session_of 1 Admin) sample_db)"
    by (simp add: session_of_def)
  moreover from document_visibility[OF h, of "session_of 2 Legal_analyst" 2] r
  have "lease_act \<in> set (fetchDocuments (session_of 2 Legal_analyst) sample_db)"
    by (simp add: session_of_def)
  ultimately show ?thesis using h r by simp
qed

subsection \<open>C6\<close>

text \<open>
  C6: every message references an existing conversation, and every statement keeps it so
  (together with the uniqueness of conversation ids); when a conversation's owner deletes
  it and no failure is reported, the conversation is gone and no message with its id
  remains.
\<close>

theorem cascade_delete:
  assumes "messages_reference_conversations db" and "conversation_ids_unique db"
  shows "(\<forall>s db'. execute s db = Inr db' \<longrightarrow>
            messages_reference_conversations db' \<and> conversation_ids_unique db') \<and>
         (\<forall>delivered sess cid t db'.
            deleteConversation delivered sess cid db = (t, db') \<longrightarrow>
              messages_reference_conversations db' \<and>
              (t = None \<and> (\<exists>c \<in> set (conversations db).
                             conv_id c = cid \<and> session_user sess = Some (conv_user_id c)) \<longrightarrow>
                 cid \<notin> conv_id ` set (conversations db') \<and>
                 (\<forall>m \<in> set (messages db'). msg_conversation_id m \<noteq> cid)))"
proof (intro conjI allI impI)
  fix s db'
  assume "execute s db = Inr db'"
  with assms show "messages_reference_conversations db'" "conversation_ids_unique db'"
    by (blast intro: execute_keeps_message_references execute_keeps_conversation_ids_unique)+
next
  fix delivered sess cid t db'
  assume del: "deleteConversation delivered sess cid db = (t, db')"
  then consider "db' = db" | "execute (Delete_conversation (session_user sess) cid) db = Inr db'"
    by (auto simp: deleteConversation_def request_def delete_conversation_def split: if_splits)
  then show "messages_reference_conversations db'"
    using assms execute_keeps_message_references by cases blast+
next
  fix delivered sess cid t db'
  assume del: "deleteConversation delivered sess cid db = (t, db')"
    and ok: "t = None \<and> (\<exists>c \<in> set (conversations db).
                             conv_id c = cid \<and> session_user sess = Some (conv_user_id c))"
  from del ok have db': "delete_conversation (session_user sess) cid db = Inr db'"
    by (auto simp: deleteConversation_def request_def split: if_splits sum.splits)
  from ok obtain c where c: "c \<in> set (conversations db)" "conv_id c = cid"
    "session_user sess = Some (conv_user_id c)"
    by blast
  then have own: "conversations_own (session_user sess) c"
    by (simp add: conversations_own_def passes_def sql_eq_def)
  from db' c own show "\<forall>m \<in> set (messages db'). msg_conversation_id m \<noteq> cid"
    by (force simp: delete_conversation_def Let_def)
  have only: "c' = c" if "c' \<in> set (conversations db)" "conv_id c' = cid" for c'
    using that c(1,2) assms(2)
    by (auto simp: conversation_ids_unique_def distinct_map dest: inj_onD)
  from db' own show "cid \<notin> conv_id ` set (conversations db')"
    by (auto simp: delete_conversation_def Let_def dest: only)
qed

theorem cascade_delete_witness:
  "messages_reference_conversations sample_db \<and> conversation_ids_unique sample_db \<and>
   deleteConversation (\<lambda>i. True) (session_of 3 User) 10 sample_db =
     (None, sample_db\<lparr>conversations := [], messages := []\<rparr>) \<and>
   messages_reference_conversations (sample_db\<lparr>conversations := [], messages := []\<rparr>)"
proof -
  have run: "deleteConversation (\<lambda>i. True) (session_of 3 User) 10 sample_db =
     (None, sample_db\<lparr>conversations := [], messages := []\<rparr>)"
    by (simp add: deleteConversation_def request_def delete_conversation_def sample_db_def
        session_of_def conversations_own_def passes_def sql_eq_def)
  from cascade_delete[OF sample_db_constraints(1,2)] run sample_db_constraints(1,2)
  show ?thesis by blast
qed

subsection \<open>C7\<close>

text \<open>
  C7: an upload through the Documents view that succeeds adds one document, whose validated
  flag is true exactly when the role of the session is admin, and whose uploader is the
  signed-in user.
\<close>

theorem upload_validated_flag:
  assumes "handleUpload parseInt delivered sess form db = (Some t, db')"
    and "toast_title t = ''Document uploaded''"
  shows "\<exists>d. legal_documents db' = legal_documents db @ [d] \<and>
             validated d = Some (session_role sess = Some Admin) \<and>
             uploaded_by d = session_user sess"
  using assms
  by (auto simp: handleUpload_def request_def insert_legal_document_def
      split: option.splits if_splits sum.splits)

theorem upload_validated_flag_witness:
  "handleUpload sample_parseInt (\<lambda>i. True) (session_of 1 Admin) sample_form sample_db =
     (Some \<lparr>toast_title = ''Document uploaded'',
            toast_description = Some (Text ''Document has been added and validated.''),
            destructive = False\<rparr>,
      sample_db\<lparr>legal_documents := legal_documents sample_db @
        [\<lparr>doc_title = ''Tenancy Act'', doc_description = None,
          doc_content = Some ''An Act about tenancies.'', doc_domain = Property,
          doc_jurisdiction = Some ''Kenya'', doc_year = Some 1995,
          doc_tags = Some [''rent'', ''lease''], uploaded_by = Some 1,
          validated = Some True, validated_by = None\<rparr>]\<rparr>) \<and>
   (\<exists>d. legal_documents (sample_db\<lparr>legal_documents := legal_documents sample_db @
        [\<lparr>doc_title = ''Tenancy Act'', doc_description = None,
          doc_content = Some ''An Act about tenancies.'', doc_domain = Property,
          doc_jurisdiction = Some ''Kenya'', doc_year = Some 1995,
          doc_tags = Some [''rent'', ''lease''], uploaded_by = Some 1,
          validated = Some True, validated_by = None\<rparr>]\<rparr>) = legal_documents sample_db @ [d] \<and>
        validated d = Some (session_role (session_of 1 Admin) = Some Admin) \<and>
        uploaded_by d = session_user (session_of 1 Admin))"
proof -
  have run: "handleUpload sample_parseInt (\<lambda>i. True) (session_of 1 Admin) sample_form sample_db =
     (Some \<lparr>toast_title = ''Document uploaded'',
            toast_description = Some (Text ''Document has been added and validated.''),
            destructive = False\<rparr>,
      sample_db\<lparr>legal_documents := legal_documents sample_db @
        [\<lparr>doc_title = ''Tenancy Act'', doc_description = None,
          doc_content = Some ''An Act about tenancies.'', doc_domain = Property,
          doc_jurisdiction = Some ''Kenya'', doc_year = Some 1995,
          doc_tags = Some [''rent'', ''lease''], uploaded_by = Some 1,
          validated = Some True, validated_by = None\<rparr>]\<rparr>)"
    by (simp add: handleUpload_def request_def session_of_def sample_form_def insert_legal_document_def
        legal_documents_insert_def authenticated_def passes_def sql_or_def has_role_def sample_db_def
        sample_parseInt_def or_null_def trim_def is_space_def)
  have "toast_title \<lparr>toast_title = ''Document uploaded'',
            toast_description = Some (Text ''Document has been added and validated.''),
            destructive = False\<rparr> = ''Document uploaded''"
    by simp
  from upload_validated_flag[OF run this] run show ?thesis
    by (simp only: simp_thms)
qed

subsection \<open>C8\<close>

text \<open>
  C8: a response to the stream-open request whose status is not a success ends the attempt
  with an error message, without the read loop being run: the rate-limit message exactly
  for status 429, the payment message exactly for status 402, the generic message exactly
  for every other status; the three messages differ, and the message is what the toast of
  sendMessage shows.
\<close>

theorem stream_open_classification:
  assumes "\<not> response_ok status"
  shows "\<exists>msg. stream_response parse (Response status body) = Inl msg \<and>
           (msg = rate_limit_message \<longleftrightarrow> status = 429) \<and>
           (msg = payment_message \<longleftrightarrow> status = 402) \<and>
           (msg = generic_message \<longleftrightarrow> status \<noteq> 429 \<and> status \<noteq> 402) \<and>
           distinct [rate_limit_message, payment_message, generic_message] \<and>
           (session_user sess \<noteq> None \<and> activeConversationId view \<noteq> None \<longrightarrow>
              fst (sendMessage parse delivered new_id (Response status body) sess view content db) =
              Some \<lparr>toast_title = ''Error'', toast_description = Some (Text msg), destructive = True\<rparr>)"
  using assms
  by (auto simp: stream_response_def sendMessage_def Let_def rate_limit_message_def
      payment_message_def generic_message_def split: option.splits)

theorem stream_open_classification_witness:
  "\<not> response_ok 429 \<and>
   stream_response sample_parse (Response 429 (Some [hello_line @ [newline]])) = Inl rate_limit_message \<and>
   rate_limit_message \<noteq> payment_message \<and> rate_limit_message \<noteq> generic_message \<and>
   payment_message \<noteq> generic_message"
  using stream_open_classification [of 429 sample_parse "Some [hello_line @ [newline]]"
      "\<lparr>session_user = None, session_role = None\<rparr>"
      "\<lparr>activeConversationId = None, view_messages = []\<rparr>" "\<lambda>i. True" 0 "[]"
      "\<lparr>auth_users = [], profiles = [], user_roles = [], legal_documents = [], conversations = [], messages = []\<rparr>"]
  by (auto simp: response_ok_def)

subsection \<open>C9\<close>

text \<open>
  C9: comment lines (beginning with \<open>:\<close>) and blank lines never produce a snapshot and never
  change the accumulated text: a chunk of complete lines followed by any remainder, fed to
  a reader that has nothing buffered, leaves the same accumulated text and the same
  snapshots as the chunk with every comment line and blank line removed, whatever the other
  lines are. In any state of the reader, the pass of the inner loop over a comment line
  or a blank line at the head of the buffer only removes that line from the buffer. And
  a stream of well-formed data lines with comment lines and blank lines among them, ended
  by the end marker, gives under every cut into chunks the same result as the stream
  without those lines under every cut into chunks.
\<close>

theorem skipped_lines:
  assumes "\<forall>l \<in> set ls. newline \<notin> set l" and "buffer st = []"
  shows "assistantContent (feed parse st (unlines (filter (\<lambda>l. \<not> comment_or_blank l) ls) @ r)) =
         assistantContent (feed parse st (unlines ls @ r)) \<and>
         snapshots (feed parse st (unlines (filter (\<lambda>l. \<not> comment_or_blank l) ls) @ r)) =
         snapshots (feed parse st (unlines ls @ r)) \<and>
         (comment_or_blank l0 \<and> newline \<notin> set l0 \<and> buffer st0 = l0 @ newline # rest0 \<longrightarrow>
            drain parse st0 = drain parse (st0\<lparr>buffer := rest0\<rparr>)) \<and>
         (list_all2 (stream_line parse) ls1 ds1 \<and> sentinel_line dl \<and>
          concat chunks1 = unlines ls1 @ dl @ [newline] \<and>
          concat chunks2 = unlines (filter (\<lambda>l. \<not> comment_or_blank l) ls1) @ dl @ [newline] \<longrightarrow>
            read_loop parse chunks1 initial_stream = read_loop parse chunks2 initial_stream)"
proof -
  obtain a s where st: "st = \<lparr>buffer = [], assistantContent = a, snapshots = s\<rparr>"
    using assms(2) by (cases st) simp
  have one: "drain parse st0 = drain parse (st0\<lparr>buffer := rest0\<rparr>)"
    if "comment_or_blank l0" "newline \<notin> set l0" "buffer st0 = l0 @ newline # rest0"
    using drain_line[OF that(2,3), of parse] process_line_comment_or_blank[OF that(1), of parse]
    by simp
  have chunked: "read_loop parse chunks1 initial_stream = read_loop parse chunks2 initial_stream"
    if h: "list_all2 (stream_line parse) ls1 ds1" "sentinel_line dl"
      "concat chunks1 = unlines ls1 @ dl @ [newline]"
      "concat chunks2 = unlines (filter (\<lambda>l. \<not> comment_or_blank l) ls1) @ dl @ [newline]"
  proof -
    from filter_stream_lines[OF h(1)] obtain ds2 where ds2:
      "list_all2 (stream_line parse) (filter (\<lambda>l. \<not> comment_or_blank l) ls1) ds2"
      "concat ds2 = concat ds1" "\<forall>a. expected_snapshots a ds2 = expected_snapshots a ds1"
      by blast
    show ?thesis
      using read_loop_stream[OF h(1,2,3)] read_loop_stream[OF ds2(1) h(2,4)] ds2(2,3)
      by simp
  qed
  from one chunked show ?thesis
    using filter_skipped_lit[OF assms(1), of parse r a s]
    by (simp add: feed_def st)
qed

theorem skipped_lines_witness:
  "list_all (\<lambda>l. newline \<notin> set l) ['': keep-alive'', hello_line, [carriage_return], [], world_line] \<and>
   buffer initial_stream = [] \<and>
   filter (\<lambda>l. \<not> comment_or_blank l) ['': keep-alive'', hello_line, [carriage_return], [], world_line] =
     [hello_line, world_line] \<and>
   assistantContent (feed sample_parse initial_stream (unlines [hello_line, world_line] @ ''da'')) =
   assistantContent (feed sample_parse initial_stream
     (unlines ['': keep-alive'', hello_line, [carriage_return], [], world_line] @ ''da'')) \<and>
   snapshots (feed sample_parse initial_stream (unlines [hello_line, world_line] @ ''da'')) =
   snapshots (feed sample_parse initial_stream
     (unlines ['': keep-alive'', hello_line, [carriage_return], [], world_line] @ ''da'')) \<and>
   list_all2 (stream_line sample_parse)
     ['': keep-alive'', hello_line, [carriage_return], [], world_line]
     [[], ''Hello'', [], [], '' world''] \<and>
   sentinel_line done_line \<and>
   read_loop sample_parse
     ['': keep-alive'' @ [newline] @ ''data: {\"cho'',
      ''ices\":[{\"delta\":{\"content\":\"Hello\"}}]}'' @ [newline, carriage_return, newline, newline] @
        world_line @ [newline] @ done_line @ [newline]]
     initial_stream =
   read_loop sample_parse
     [hello_line @ [newline] @ ''data: '', ''{\"choices\":[{\"delta\":{\"content\":\" world\"}}]}'' @ [newline] @ ''data: [D'',
      ''ONE]'' @ [newline]]
     initial_stream"
proof -
  have h1: "\<forall>l \<in> set ['': keep-alive'', hello_line, [carriage_return], [], world_line]. newline \<notin> set l"
    by (simp add: hello_line_def world_line_def newline_def carriage_return_def)
  have h2: "buffer initial_stream = []"
    by (simp add: initial_stream_def)
  have h3: "filter (\<lambda>l. \<not> comment_or_blank l) ['': keep-alive'', hello_line, [carriage_return], [], world_line] =
     [hello_line, world_line]"
    by (simp add: comment_or_blank_def starts_with_def trim_def is_space_def hello_line_def
        world_line_def carriage_return_def)
  from h1 have h1': "list_all (\<lambda>l. newline \<notin> set l) ['': keep-alive'', hello_line, [carriage_return], [], world_line]"
    by (simp only: list_all_iff)
  have h4: "list_all2 (stream_line sample_parse)
     ['': keep-alive'', hello_line, [carriage_return], [], world_line]
     [[], ''Hello'', [], [], '' world'']"
    by (simp add: stream_line_def sample_data_lines comment_or_blank_def starts_with_def trim_def
        is_space_def carriage_return_def newline_def)
  have h5: "sentinel_line done_line"
    by (rule sample_data_lines)
  have h6: "concat ['': keep-alive'' @ [newline] @ ''data: {\"cho'',
      ''ices\":[{\"delta\":{\"content\":\"Hello\"}}]}'' @ [newline, carriage_return, newline, newline] @
        world_line @ [newline] @ done_line @ [newline]] =
     unlines ['': keep-alive'', hello_line, [carriage_return], [], world_line] @ done_line @ [newline]"
    by (simp add: unlines_def hello_line_def)
  have h7: "concat [hello_line @ [newline] @ ''data: '', ''{\"choices\":[{\"delta\":{\"content\":\" world\"}}]}'' @ [newline] @ ''data: [D'',
      ''ONE]'' @ [newline]] =
     unlines (filter (\<lambda>l. \<not> comment_or_blank l)
        ['': keep-alive'', hello_line, [carriage_return], [], world_line]) @ done_line @ [newline]"
    by (simp only: h3) (simp add: unlines_def world_line_def done_line_def)
  note inst = skipped_lines[OF h1 h2, where parse = sample_parse and r = "''da''"
      and ?ls1.0 = "['': keep-alive'', hello_line, [carriage_return], [], world_line]"
      and ?ds1.0 = "[[], ''Hello'', [], [], '' world'']" and dl = done_line
      and ?chunks1.0 = "['': keep-alive'' @ [newline] @ ''data: {\"cho'',
      ''ices\":[{\"delta\":{\"content\":\"Hello\"}}]}'' @ [newline, carriage_return, newline, newline] @
        world_line @ [newline] @ done_line @ [newline]]"
      and ?chunks2.0 = "[hello_line @ [newline] @ ''data: '', ''{\"choices\":[{\"delta\":{\"content\":\" world\"}}]}'' @ [newline] @ ''data: [D'',
      ''ONE]'' @ [newline]]"]
  from inst h4 h5 h6 h7 have
    "read_loop sample_parse
     ['': keep-alive'' @ [newline] @ ''data: {\"cho'',
      ''ices\":[{\"delta\":{\"content\":\"Hello\"}}]}'' @ [newline, carriage_return, newline, newline] @
        world_line @ [newline] @ done_line @ [newline]]
     initial_stream =
   read_loop sample_parse
     [hello_line @ [newline] @ ''data: '', ''{\"choices\":[{\"delta\":{\"content\":\" world\"}}]}'' @ [newline] @ ''data: [D'',
      ''ONE]'' @ [newline]]
     initial_stream"
    by blast
  with inst h1' h2 h3 h4 h5 show ?thesis
    by (simp only: simp_thms)
qed

subsection \<open>C10\<close>

text \<open>
  C10: a role change asked by a session whose role is not admin, or whose target is the
  signed-in user, leaves the database exactly as it was.
\<close>

theorem role_change_guard:
  assumes "session_role sess \<noteq> Some Admin \<or> session_user sess = Some userId"
  shows "snd (handleRoleChange delivered sess userId newRole db) = db"
  using assms by (auto simp: handleRoleChange_def)

theorem role_change_guard_witness:
  "session_role (session_of 2 Legal_analyst) \<noteq> Some Admin \<and>
   snd (handleRoleChange (\<lambda>i. True) (session_of 2 Legal_analyst) 4 Admin sample_db) = sample_db \<and>
   session_user (session_of 1 Admin) = Some 1 \<and>
   snd (handleRoleChange (\<lambda>i. True) (session_of 1 Admin) 1 User sample_db) = sample_db"
  using role_change_guard [of "session_of 2 Legal_analyst" 4 "\<lambda>i. True" Admin sample_db]
    role_change_guard [of "session_of 1 Admin" 1 "\<lambda>i. True" User sample_db]
  by (simp add: session_of_def)

end
